theory Spec2Isabelle
  imports Complex_Main
begin

section \<open>Data model\<close>

text \<open>
  Python exceptions that the modelled code can raise.  Every raise of the source is a
  branch of the model that returns \<open>Inl\<close> of one of these.
\<close>

datatype py_error = ZeroDivisionError | IndexError

text \<open>
  A message of the MIDI library.  \<open>MetaMsg\<close> stands for a meta message (\<open>msg.is_meta\<close>),
  \<open>OtherMsg\<close> for a channel message that is neither \<open>note_on\<close> nor \<open>note_off\<close>.
  \<open>msg_time\<close> is the message's \<open>time\<close> attribute: a tick count in \<open>song_tracks\<close>
  (the merged track), seconds when the file object itself is iterated.  Numbers that Python
  holds as floats are rationals here: the arithmetic of the model is exact.
\<close>

datatype msg_type = NoteOn | NoteOff | OtherMsg | MetaMsg

record msg =
  msg_type :: msg_type
  msg_note :: int
  msg_velocity :: int
  msg_channel :: int
  msg_time :: rat

definition is_meta :: "msg \<Rightarrow> bool" where
  "is_meta m = (msg_type m = MetaMsg)"

datatype hand = LeftHand | RightHand

datatype note_type = White | Black

type_synonym rgb = "int list"

text \<open>
  The fields of \<open>LearnMIDI\<close> that the practice engine and the renderer read or write.
  \<open>learn_colors\<close> is the table built by \<open>_load_enhanced_colors\<close>; both of its branches
  fill all eight entries, so the lookup of \<open>get_learn_color\<close> always succeeds and the table is
  a total function of hand, key colour and timing (\<open>True\<close> = upcoming).
  \<open>playport\<close> is the log of the messages handed to \<open>midiports.playport.send\<close>, oldest
  first.  The LED strip is outside the model.
\<close>

record learnmidi =
  loading :: int
  practice :: int
  hands :: int
  mute_hand :: int
  start_point :: rat
  end_point :: rat
  set_tempo :: int
  show_wrong_notes :: int
  show_future_notes :: int
  notes_time :: "rat list"
  socket_send :: "rat list"
  pending_software_notes :: "msg list"
  next_note_time :: "rat option"
  next_note_delay :: "rat option"
  is_loop_active :: int
  is_led_activeL :: int
  is_led_activeR :: int
  learn_colors :: "hand \<Rightarrow> note_type \<Rightarrow> bool \<Rightarrow> rgb"
  song_tempo :: int
  song_tracks :: "msg list"
  ticks_per_beat :: int
  is_started_midi :: bool
  current_idx :: int
  mistakes_count :: int
  number_of_mistakes :: int
  awaiting_restart_loop :: bool
  playport :: "msg list"

section \<open>Flying-notes renderer\<close>

record note_data =
  nd_midi_note :: int
  nd_channel :: int
  nd_velocity :: int
  nd_start_time :: rat
  nd_duration :: rat
  nd_hand :: hand
  nd_note_type :: note_type

record piano_key =
  pk_midi_note :: int
  pk_x_position :: int
  pk_is_black :: bool
  pk_width :: int

record settings =
  enabled :: bool
  speed :: rat
  note_height :: rat
  keyboard_height :: rat
  show_measures :: bool
  animation_smoothness :: rat
  canvas_height :: rat
  fall_distance :: rat

record flying_note =
  fn_midi_note :: int
  fn_x_position :: int
  fn_y_position :: rat
  fn_width :: int
  fn_height :: rat
  fn_color :: rgb
  fn_hand :: hand
  fn_velocity :: int
  fn_is_black_key :: bool

record frame_data =
  fd_notes :: "flying_note list"
  fd_piano_keys :: "piano_key list"
  fd_settings :: settings

datatype message = StopMessage | FrameUpdate frame_data rat

text \<open>
  A websocket client is named by a number.  \<open>websocket_clients\<close> is the set of subscribed
  clients, \<open>animation_thread\<close> tells whether a thread object has been stored, and \<open>outbox\<close>
  is the log of what \<open>client.send\<close> delivered: one entry per client and message, oldest first.
\<close>

record renderer =
  websocket_clients :: "nat list"
  is_active :: bool
  animation_thread :: bool
  notes_buffer :: "note_data list"
  current_time :: rat
  start_time :: rat
  piano_keys :: "piano_key list"
  rsettings :: settings
  outbox :: "(nat \<times> message) list"

definition sync_with_learn_midi :: "renderer \<Rightarrow> rat \<Rightarrow> renderer" where
  "sync_with_learn_midi r current_position =
     (if is_active r then r\<lparr>current_time := current_position\<rparr> else r)"


subsection \<open>Keyboard layout\<close>

text \<open>
  \<open>_generate_piano_layout\<close>: the loop over \<open>range(21, 109)\<close>, carrying the count of
  white keys seen so far and the list of keys built so far.  \<open>black_key_offset\<close> is the
  dictionary of the source; it is only read at the five black positions of the octave.
\<close>

definition black_key_offset :: "int \<Rightarrow> int" where
  "black_key_offset k =
     (if k = 1 then - 6 else if k = 3 then 6 else if k = 6 then - 8
      else if k = 8 then 0 else 8)"

fun piano_layout_loop :: "int list \<Rightarrow> int \<Rightarrow> piano_key list \<Rightarrow> piano_key list" where
  "piano_layout_loop [] white_key_count keys = keys"
| "piano_layout_loop (midi_note # rest) white_key_count keys =
     (let note_in_octave = midi_note mod 12;
          is_black = (note_in_octave \<in> set [1, 3, 6, 8, 10])
      in if \<not> is_black
         then piano_layout_loop rest (white_key_count + 1)
                (keys @ [\<lparr>pk_midi_note = midi_note,
                          pk_x_position = white_key_count * 20,
                          pk_is_black = is_black, pk_width = 20\<rparr>])
         else piano_layout_loop rest white_key_count
                (keys @ [\<lparr>pk_midi_note = midi_note,
                          pk_x_position = (white_key_count - 1) * 20 + 20 div 2
                                           + black_key_offset note_in_octave,
                          pk_is_black = is_black, pk_width = 12\<rparr>]))"

definition generate_piano_layout :: "piano_key list" where
  "generate_piano_layout = piano_layout_loop [21..108] 0 []"

subsection \<open>Colours and key types\<close>

definition get_note_type :: "int \<Rightarrow> note_type" where
  "get_note_type n = (if n mod 12 \<in> set [1, 3, 6, 8, 10] then Black else White)"

definition get_learn_color :: "learnmidi \<Rightarrow> hand \<Rightarrow> note_type \<Rightarrow> bool \<Rightarrow> rgb" where
  "get_learn_color lm h nt is_upcoming = learn_colors lm h nt is_upcoming"

subsection \<open>Loading the notes buffer\<close>

text \<open>
  \<open>notes_buffer\<close> is a \<open>deque(maxlen=1000)\<close>: appending to a full deque drops the oldest
  entry.
\<close>

definition deque_append :: "'a list \<Rightarrow> 'a \<Rightarrow> 'a list" where
  "deque_append q x = (if 1000 \<le> length q then tl q @ [x] else q @ [x])"

text \<open>
  The loop of \<open>_load_notes_from_midi\<close> over \<open>song_tracks\<close>, with the local
  \<open>current_time\<close> (a tick count; meta messages do not advance it) and the buffer.  The
  division raises when \<open>ticks_per_beat\<close> is zero; the exception leaves the function, and
  the model returns the error in place of the buffer.
\<close>

fun load_notes_loop ::
  "learnmidi \<Rightarrow> msg list \<Rightarrow> rat \<Rightarrow> note_data list \<Rightarrow> py_error + note_data list" where
  "load_notes_loop lm [] ticks buf = Inr buf"
| "load_notes_loop lm (m # ms) ticks buf =
     (if \<not> is_meta m then
        (let ticks' = ticks + msg_time m in
         if msg_type m = NoteOn \<and> msg_velocity m > 0 then
           (if ticks_per_beat lm * 1000000 = 0 then Inl ZeroDivisionError
            else load_notes_loop lm ms ticks'
                   (deque_append buf
                      \<lparr>nd_midi_note = msg_note m, nd_channel = msg_channel m,
                       nd_velocity = msg_velocity m,
                       nd_start_time = ticks' * of_int (song_tempo lm)
                                        / of_int (ticks_per_beat lm * 1000000),
                       nd_duration = 1,
                       nd_hand = (if msg_channel m = 1 then RightHand else LeftHand),
                       nd_note_type = get_note_type (msg_note m)\<rparr>))
         else load_notes_loop lm ms ticks' buf)
      else load_notes_loop lm ms ticks buf)"

definition load_notes_from_midi :: "learnmidi \<Rightarrow> renderer \<Rightarrow> py_error + renderer" where
  "load_notes_from_midi lm r =
     (if song_tracks lm = [] then Inr r
      else case load_notes_loop lm (song_tracks lm) 0 [] of
             Inl e \<Rightarrow> Inl e
           | Inr buf \<Rightarrow> Inr (r\<lparr>notes_buffer := buf\<rparr>))"

subsection \<open>Frames\<close>

text \<open>
  \<open>next((k for k in self.piano_keys if k['midi_note'] == n), None)\<close>: the first key of the
  layout with that number.
\<close>

fun find_key :: "piano_key list \<Rightarrow> int \<Rightarrow> piano_key option" where
  "find_key [] n = None"
| "find_key (k # ks) n = (if pk_midi_note k = n then Some k else find_key ks n)"

definition lookahead_time :: "renderer \<Rightarrow> rat" where
  "lookahead_time r = fall_distance (rsettings r) / 100"

text \<open>The entry appended to \<open>visible_notes\<close> for a buffered note and its key.\<close>

definition visible_note :: "learnmidi \<Rightarrow> renderer \<Rightarrow> note_data \<Rightarrow> piano_key \<Rightarrow> flying_note" where
  "visible_note lm r n key_info =
     (let time_until_hit = nd_start_time n - current_time r;
          y_position = canvas_height (rsettings r) - keyboard_height (rsettings r)
                        - (time_until_hit / lookahead_time r * fall_distance (rsettings r));
          color = get_learn_color lm (nd_hand n) (nd_note_type n) True
      in \<lparr>fn_midi_note = nd_midi_note n, fn_x_position = pk_x_position key_info,
          fn_y_position = y_position, fn_width = pk_width key_info,
          fn_height = note_height (rsettings r), fn_color = color,
          fn_hand = nd_hand n, fn_velocity = nd_velocity n,
          fn_is_black_key = pk_is_black key_info\<rparr>)"

text \<open>
  The loop of \<open>_generate_frame_data\<close> over the buffer.  For a note inside the window the
  vertical position is computed first, and its division by \<open>lookahead_time\<close> raises when
  the lookahead is zero; only then is the key looked up.
\<close>

fun visible_notes_loop ::
  "learnmidi \<Rightarrow> renderer \<Rightarrow> note_data list \<Rightarrow> flying_note list \<Rightarrow> py_error + flying_note list" where
  "visible_notes_loop lm r [] visible_notes = Inr visible_notes"
| "visible_notes_loop lm r (n # ns) visible_notes =
     (if current_time r \<le> nd_start_time n \<and>
         nd_start_time n \<le> current_time r + lookahead_time r then
        (if lookahead_time r = 0 then Inl ZeroDivisionError
         else case find_key (piano_keys r) (nd_midi_note n) of
                None \<Rightarrow> visible_notes_loop lm r ns visible_notes
              | Some key_info \<Rightarrow>
                  visible_notes_loop lm r ns (visible_notes @ [visible_note lm r n key_info]))
      else visible_notes_loop lm r ns visible_notes)"

definition generate_frame_data :: "learnmidi \<Rightarrow> renderer \<Rightarrow> py_error + frame_data" where
  "generate_frame_data lm r =
     (case visible_notes_loop lm r (notes_buffer r) [] of
        Inl e \<Rightarrow> Inl e
      | Inr visible_notes \<Rightarrow>
          Inr \<lparr>fd_notes = visible_notes, fd_piano_keys = piano_keys r,
               fd_settings = rsettings r\<rparr>)"

subsection \<open>Broadcast, start and stop\<close>

text \<open>
  \<open>_broadcast_to_clients\<close>.  Whether \<open>client.send\<close> raises is decided outside the
  program; \<open>send_fails\<close> tells it for each client.  A client whose send raised is
  removed from the set, the others receive the message.
\<close>

definition broadcast_to_clients :: "(nat \<Rightarrow> bool) \<Rightarrow> renderer \<Rightarrow> message \<Rightarrow> renderer" where
  "broadcast_to_clients send_fails r data =
     (if websocket_clients r = [] then r
      else r\<lparr>outbox := outbox r @
                 map (\<lambda>c. (c, data)) (filter (\<lambda>c. \<not> send_fails c) (websocket_clients r)),
             websocket_clients := filter (\<lambda>c. \<not> send_fails c) (websocket_clients r)\<rparr>)"

text \<open>
  \<open>stop_animation\<close>.  Joining the thread does not change a field of the renderer; the
  stored thread object stays.
\<close>

definition stop_animation :: "(nat \<Rightarrow> bool) \<Rightarrow> renderer \<Rightarrow> renderer" where
  "stop_animation send_fails r =
     broadcast_to_clients send_fails (r\<lparr>is_active := False, notes_buffer := []\<rparr>) StopMessage"

text \<open>\<open>start_animation\<close>; \<open>now\<close> is the value of \<open>time.time()\<close>.\<close>

definition start_animation :: "learnmidi \<Rightarrow> rat \<Rightarrow> renderer \<Rightarrow> py_error + renderer" where
  "start_animation lm now r =
     (if is_active r \<or> \<not> enabled (rsettings r) then Inr r
      else case load_notes_from_midi lm
                  (r\<lparr>is_active := True, start_time := now, current_time := 0\<rparr>) of
             Inl e \<Rightarrow> Inl e
           | Inr r' \<Rightarrow> Inr (r'\<lparr>animation_thread := True\<rparr>))"

text \<open>The renderer as \<open>__init__\<close> builds it, with the default settings.\<close>

definition default_settings :: settings where
  "default_settings =
     \<lparr>enabled = False, speed = 1, note_height = 20, keyboard_height = 80,
      show_measures = True, animation_smoothness = 60, canvas_height = 600,
      fall_distance = 520\<rparr>"

definition renderer_init :: renderer where
  "renderer_init =
     \<lparr>websocket_clients = [], is_active = False, animation_thread = False,
      notes_buffer = [], current_time = 0, start_time = 0,
      piano_keys = generate_piano_layout, rsettings = default_settings, outbox = []\<rparr>"

section \<open>Timeline\<close>

text \<open>
  The loop of \<open>load_midi\<close> that fills \<open>notes_time\<close>: \<open>time_passed\<close> grows by the time of
  every non-meta message, and its value is recorded after each of them.  Here
  \<open>msg_time\<close> is in seconds.
\<close>

fun notes_time_loop :: "msg list \<Rightarrow> rat \<Rightarrow> rat list \<Rightarrow> rat list" where
  "notes_time_loop [] time_passed nt = nt"
| "notes_time_loop (m # ms) time_passed nt =
     (if \<not> is_meta m
      then notes_time_loop ms (time_passed + msg_time m) (nt @ [time_passed + msg_time m])
      else notes_time_loop ms time_passed nt)"

definition load_notes_time :: "msg list \<Rightarrow> rat list" where
  "load_notes_time mid = notes_time_loop mid 0 []"

text \<open>
  Modelled from the spec: \<open>tick2second\<close> of the MIDI library, which is not part of the
  sources.  The spec gives \<open>seconds = ticks * tempo_micros_per_beat / (ticks_per_beat *
  1_000_000)\<close>; a zero \<open>ticks_per_beat\<close> is a division by zero.
\<close>

definition tick2second :: "rat \<Rightarrow> int \<Rightarrow> rat \<Rightarrow> py_error + rat" where
  "tick2second tick tpb tempo =
     (if tpb = 0 then Inl ZeroDivisionError
      else Inr (tick * tempo / (of_int tpb * 1000000)))"

text \<open>
  \<open>mido.tick2second(msg.time, self.ticks_per_beat, self.song_tempo * 100 / self.set_tempo)\<close>:
  the argument is evaluated first, and its division raises when \<open>set_tempo\<close> is zero.
\<close>

definition get_tDelay :: "'a learnmidi_scheme \<Rightarrow> msg \<Rightarrow> py_error + rat" where
  "get_tDelay lm m =
     (if set_tempo lm = 0 then Inl ZeroDivisionError
      else tick2second (msg_time m) (ticks_per_beat lm)
             (of_int (song_tempo lm * 100) / of_int (set_tempo lm)))"


section \<open>Practice engine\<close>

text \<open>
  The state of a run of \<open>learn_midi\<close>: the fields of the object and the local variables of
  the function that live across iterations.  A local that Python has not bound yet is the
  empty list here; the code never reads one before binding it.  The hint buffers and every
  other value that only feeds the LED strip are left out, and so are the calls whose only
  effect is on the strip (\<open>fastColorWipe\<close>, \<open>predict_future_notes\<close>, the lighting of keys).
\<close>

record engine = learnmidi +
  notes_to_press :: "int list"
  notes_pressed :: "int list"
  wrong_notes :: "msg list"
  absolute_idx :: int

subsection \<open>Python helpers\<close>

text \<open>\<open>int(x)\<close> on a float truncates toward zero.\<close>

definition py_int :: "rat \<Rightarrow> int" where
  "py_int q = (if q < 0 then \<lceil>q\<rceil> else \<lfloor>q\<rfloor>)"

text \<open>A slice bound of Python: a negative bound counts from the end, and both are clipped.\<close>

definition slice_bound :: "nat \<Rightarrow> int \<Rightarrow> nat" where
  "slice_bound n i = (if i < 0 then nat (max 0 (int n + i)) else min n (nat i))"

definition py_slice :: "'a list \<Rightarrow> int \<Rightarrow> int \<Rightarrow> 'a list" where
  "py_slice xs a b =
     (let lo = slice_bound (length xs) a; hi = slice_bound (length xs) b
      in take (hi - lo) (drop lo xs))"

text \<open>\<open>xs[i]\<close>: a negative index counts from the end; out of range raises.\<close>

definition py_index :: "'a list \<Rightarrow> int \<Rightarrow> py_error + 'a" where
  "py_index xs i =
     (if 0 \<le> i \<and> i < int (length xs) then Inr (xs ! nat i)
      else if i < 0 \<and> - int (length xs) \<le> i then Inr (xs ! nat (int (length xs) + i))
      else Inl IndexError)"

subsection \<open>Wrong notes\<close>

text \<open>
  The code reads note and velocity of an input message from its printed form; the printed
  form of a note message carries both, so the model reads the fields.  A \<open>note_off\<close>
  counts as velocity 0.
\<close>

definition input_velocity :: "msg \<Rightarrow> int" where
  "input_velocity msg_in = (if msg_type msg_in = NoteOff then 0 else msg_velocity msg_in)"

definition restart_loop :: "engine \<Rightarrow> engine" where
  "restart_loop s = s\<lparr>awaiting_restart_loop := True\<rparr>"

text \<open>The loop of \<open>handle_wrong_notes\<close> over the batch, as far as it touches the state.\<close>

fun wrong_notes_loop :: "msg list \<Rightarrow> engine \<Rightarrow> engine" where
  "wrong_notes_loop [] s = s"
| "wrong_notes_loop (m # ms) s =
     (if input_velocity m > 0
      then wrong_notes_loop ms (s\<lparr>mistakes_count := mistakes_count s + 1\<rparr>)
      else wrong_notes_loop ms s)"

definition handle_wrong_notes :: "msg list \<Rightarrow> engine \<Rightarrow> engine" where
  "handle_wrong_notes wn s =
     (if show_wrong_notes s \<noteq> 1 then s
      else (let s1 = wrong_notes_loop wn s
            in if mistakes_count s1 > number_of_mistakes s1 \<and> number_of_mistakes s1 > 0
               then restart_loop (s1\<lparr>mistakes_count := 0\<rparr>)
               else s1))"

subsection \<open>The gate wait\<close>

text \<open>
  The inner loop that empties \<open>midi_queue\<close>.  The argument is the content of the queue,
  oldest first.
\<close>

fun drain :: "msg list \<Rightarrow> engine \<Rightarrow> engine" where
  "drain [] s = s"
| "drain (msg_in # q) s =
     (if msg_type msg_in \<noteq> NoteOn \<and> msg_type msg_in \<noteq> NoteOff then drain q s
      else if msg_note msg_in \<notin> set (notes_to_press s) then
        drain q ((if input_velocity msg_in > 0 then s\<lparr>pending_software_notes := []\<rparr> else s)
                   \<lparr>wrong_notes := wrong_notes s @ [msg_in]\<rparr>)
      else if input_velocity msg_in > 0 then
        (if msg_note msg_in \<notin> set (notes_pressed s)
         then drain q (s\<lparr>notes_pressed := notes_pressed s @ [msg_note msg_in]\<rparr>)
         else drain q s)
      else drain q (s\<lparr>notes_pressed := remove1 (msg_note msg_in) (notes_pressed s)\<rparr>))"

text \<open>
  What the surroundings do during one pass of the gate-wait loop: the messages found in the
  queue, and whether another thread clears \<open>is_started_midi\<close> or calls \<open>restart_loop\<close>
  before the loop tests its condition again.
\<close>

record round =
  queued :: "msg list"
  stop_request :: bool
  restart_request :: bool

definition apply_requests :: "bool \<Rightarrow> bool \<Rightarrow> engine \<Rightarrow> engine" where
  "apply_requests stop restart s =
     (let s1 = (if stop then s\<lparr>is_started_midi := False\<rparr> else s)
      in if restart then restart_loop s1 else s1)"

text \<open>One pass of the body of the gate-wait loop.\<close>

definition gate_round :: "round \<Rightarrow> engine \<Rightarrow> engine" where
  "gate_round rd s =
     (let s1 = drain (queued rd) s;
          s2 = handle_wrong_notes (wrong_notes s1) s1;
          s3 = s2\<lparr>wrong_notes := []\<rparr>
      in apply_requests (stop_request rd) (restart_request rd) s3)"

definition gate_satisfied :: "engine \<Rightarrow> bool" where
  "gate_satisfied s = (set (notes_to_press s) \<subseteq> set (notes_pressed s))"

text \<open>
  A loop that waits for input ends, or is still turning when the recorded input is used up.
\<close>

datatype 'a run = Done 'a | Waiting 'a

fun run_state :: "'a run \<Rightarrow> 'a" where
  "run_state (Done s) = s"
| "run_state (Waiting s) = s"

fun is_done :: "'a run \<Rightarrow> bool" where
  "is_done (Done s) = True"
| "is_done (Waiting s) = False"

text \<open>
  \<open>while not set(notes_to_press).issubset(notes_pressed) and self.is_started_midi:\<close> with
  the \<open>break\<close> on \<open>awaiting_restart_loop\<close> at the head of its body.
\<close>

fun gate_wait :: "round list \<Rightarrow> engine \<Rightarrow> engine run" where
  "gate_wait [] s =
     (if \<not> (\<not> gate_satisfied s \<and> is_started_midi s) then Done s
      else if awaiting_restart_loop s then Done s
      else Waiting s)"
| "gate_wait (rd # rds) s =
     (if \<not> (\<not> gate_satisfied s \<and> is_started_midi s) then Done s
      else if awaiting_restart_loop s then Done s
      else gate_wait rds (gate_round rd s))"

subsection \<open>One message of the song\<close>

text \<open>
  What the surroundings do while one message is processed: requests that arrive before the
  message is looked at, the clock when the gate is entered, the passes of the gate wait, and
  the clock at the test of the time-based flush.
\<close>

record msg_env =
  stop_before :: bool
  restart_before :: bool
  gate_clock :: rat
  rounds :: "round list"
  valve_clock :: rat

definition flush_pending :: "engine \<Rightarrow> engine" where
  "flush_pending s =
     s\<lparr>playport := playport s @ pending_software_notes s, pending_software_notes := []\<rparr>"

definition record_position :: "engine \<Rightarrow> engine" where
  "record_position s =
     (let s1 = (case py_index (notes_time s) (current_idx s) of
                  Inr t \<Rightarrow> s\<lparr>socket_send := socket_send s @ [t]\<rparr>
                | Inl e \<Rightarrow> s)
      in s1\<lparr>current_idx := current_idx s1 + 1\<rparr>)"

definition is_gate :: "rat \<Rightarrow> msg \<Rightarrow> engine \<Rightarrow> bool" where
  "is_gate tDelay m s =
     (tDelay > 0 \<and> (msg_type m = NoteOn \<or> msg_type m = NoteOff) \<and>
      notes_to_press s \<noteq> [] \<and> practice s = 0)"

text \<open>What the code does on entering a gate, before the wait.\<close>

definition gate_entry :: "msg_env \<Rightarrow> rat \<Rightarrow> engine \<Rightarrow> engine" where
  "gate_entry env tDelay s =
     s\<lparr>notes_pressed := [], wrong_notes := [],
       next_note_time := Some (gate_clock env + tDelay),
       next_note_delay := Some tDelay\<rparr>"

text \<open>What the code does after the wait: the pending notes are played if the gate was
  satisfied, and \<open>notes_to_press\<close> is cleared in any case.\<close>

definition gate_leave :: "engine \<Rightarrow> engine" where
  "gate_leave s2 =
     (if gate_satisfied s2 \<and> pending_software_notes s2 \<noteq> []
      then flush_pending s2 else s2)\<lparr>notes_to_press := []\<rparr>"

definition gate_phase :: "msg_env \<Rightarrow> rat \<Rightarrow> engine \<Rightarrow> engine run" where
  "gate_phase env tDelay s =
     (case gate_wait (rounds env) (gate_entry env tDelay s) of
        Waiting s2 \<Rightarrow> Waiting s2
      | Done s2 \<Rightarrow> Done (gate_leave s2))"

definition save_note_to_press :: "msg \<Rightarrow> engine \<Rightarrow> engine" where
  "save_note_to_press m s =
     (if msg_type m = NoteOn \<and> msg_velocity m > 0 \<and>
         (msg_channel m = hands s \<or> hands s = 0)
      then s\<lparr>notes_to_press := notes_to_press s @ [msg_note m]\<rparr> else s)"

definition is_software_note :: "msg \<Rightarrow> engine \<Rightarrow> bool" where
  "is_software_note m s =
     ((hands s = 1 \<and> mute_hand s \<noteq> 2 \<and> msg_channel m = 2) \<or>
      (hands s = 2 \<and> mute_hand s \<noteq> 1 \<and> msg_channel m = 1) \<or>
      practice s = 2)"

definition handle_software_note :: "msg \<Rightarrow> engine \<Rightarrow> engine" where
  "handle_software_note m s =
     (if is_software_note m s then
        (if practice s = 2 then s\<lparr>playport := playport s @ [m]\<rparr>
         else if notes_to_press s \<noteq> []
              then s\<lparr>pending_software_notes := pending_software_notes s @ [m]\<rparr>
              else s\<lparr>playport := playport s @ [m]\<rparr>)
      else s)"

text \<open>
  The flush by time at the end of the loop body.  \<open>self.next_note_time\<close> is tested for
  truth: it must be set and not zero.
\<close>

definition escape_valve :: "msg_env \<Rightarrow> engine \<Rightarrow> engine" where
  "escape_valve env s =
     (if pending_software_notes s \<noteq> [] \<and> notes_to_press s = [] \<and>
         (case next_note_time s of None \<Rightarrow> False
          | Some t \<Rightarrow> t \<noteq> 0 \<and> valve_clock env \<ge> t)
      then (flush_pending s)\<lparr>next_note_time := None, next_note_delay := None\<rparr>
      else s)"

text \<open>
  How one pass of the \<open>for\<close> body ends: it goes on to the next message, leaves the loop
  by \<open>break\<close>, raises, or is still inside a gate wait.
\<close>

datatype step = Next engine | Break engine | Raise py_error engine | Blocked engine

definition process_msg :: "msg_env \<Rightarrow> msg \<Rightarrow> engine \<Rightarrow> step" where
  "process_msg env m s0 =
     (let s = apply_requests (stop_before env) (restart_before env) s0 in
      if \<not> is_started_midi s then Break s
      else case get_tDelay s m of
        Inl e \<Rightarrow> Raise e s
      | Inr tDelay \<Rightarrow>
          (case (if \<not> is_meta m then
                   (let s1 = record_position s
                    in if is_gate tDelay m s1 then gate_phase env tDelay s1 else Done s1)
                 else Done s) of
             Waiting s2 \<Rightarrow> Blocked s2
           | Done s2 \<Rightarrow>
               (let s3 = (if \<not> is_meta m
                          then handle_software_note m (save_note_to_press m s2) else s2);
                    s4 = s3\<lparr>absolute_idx := absolute_idx s3 + 1\<rparr>;
                    s5 = escape_valve env s4
                in if awaiting_restart_loop s5
                   then Break (s5\<lparr>awaiting_restart_loop := False\<rparr>)
                   else Next s5)))"

subsection \<open>The slice and the outer loop\<close>

text \<open>The \<open>for\<close> loop over the slice; \<open>env i\<close> describes the surroundings of message \<open>i\<close>.\<close>

fun for_loop :: "(nat \<Rightarrow> msg_env) \<Rightarrow> nat \<Rightarrow> msg list \<Rightarrow> engine \<Rightarrow> step" where
  "for_loop env i [] s = Next s"
| "for_loop env i (m # ms) s =
     (case process_msg (env i) m s of
        Next s' \<Rightarrow> for_loop env (Suc i) ms s'
      | Break s' \<Rightarrow> Break s'
      | Raise e s' \<Rightarrow> Raise e s'
      | Blocked s' \<Rightarrow> Blocked s')"

definition start_idx :: "engine \<Rightarrow> int" where
  "start_idx s = py_int (start_point s * of_nat (length (song_tracks s)) / 100)"

definition end_idx :: "engine \<Rightarrow> int" where
  "end_idx s = py_int (end_point s * of_nat (length (song_tracks s)) / 100)"

text \<open>The head of the body of \<open>while keep_looping\<close>, up to the \<open>for\<close> loop.\<close>

definition loop_entry :: "engine \<Rightarrow> engine" where
  "loop_entry s =
     s\<lparr>notes_to_press := [], current_idx := start_idx s, absolute_idx := start_idx s\<rparr>"

text \<open>
  One pass of \<open>while keep_looping\<close>: the result is the new value of \<open>keep_looping\<close> and
  the state.  An exception is caught and clears \<open>is_started_midi\<close>.
\<close>

definition learn_midi_iteration :: "(nat \<Rightarrow> msg_env) \<Rightarrow> engine \<Rightarrow> (bool \<times> engine) run" where
  "learn_midi_iteration env s =
     (let s0 = loop_entry s
      in case for_loop env 0 (py_slice (song_tracks s0) (start_idx s0) (end_idx s0)) s0 of
           Blocked s' \<Rightarrow> Waiting (True, s')
         | Raise e s' \<Rightarrow> Done (False, s'\<lparr>is_started_midi := False\<rparr>)
         | Next s' \<Rightarrow> Done (is_loop_active s' \<noteq> 0 \<and> is_started_midi s', s')
         | Break s' \<Rightarrow> Done (is_loop_active s' \<noteq> 0 \<and> is_started_midi s', s'))"

text \<open>
  The loop itself, for at most \<open>n\<close> passes; \<open>env k\<close> describes the surroundings of pass
  \<open>k\<close>.  \<open>None\<close>: the loop has not ended after \<open>n\<close> passes.
\<close>

fun keep_looping :: "nat \<Rightarrow> (nat \<Rightarrow> nat \<Rightarrow> msg_env) \<Rightarrow> nat \<Rightarrow> engine \<Rightarrow> engine run option" where
  "keep_looping 0 env k s = None"
| "keep_looping (Suc n) env k s =
     (case learn_midi_iteration (env k) s of
        Waiting (b, s') \<Rightarrow> Some (Waiting s')
      | Done (b, s') \<Rightarrow> if b then keep_looping n env (Suc k) s' else Some (Done s'))"

text \<open>
  The state in which the \<open>for\<close> loop starts again after a pass that ended with
  \<open>keep_looping\<close> still set.
\<close>

definition reentry_state :: "(nat \<Rightarrow> msg_env) \<Rightarrow> engine \<Rightarrow> engine option" where
  "reentry_state env s =
     (case learn_midi_iteration env s of
        Done (b, s') \<Rightarrow> if b then Some (loop_entry s') else None
      | Waiting x \<Rightarrow> None)"

text \<open>
  The spec's reading of the pressed notes, as a set: among the expected notes, a note-on with
  a positive velocity adds its note and a note-off (or a velocity of 0) removes it; other
  messages change nothing.
\<close>

fun pressed_after :: "int set \<Rightarrow> msg list \<Rightarrow> int set \<Rightarrow> int set" where
  "pressed_after expected [] pressed = pressed"
| "pressed_after expected (e # es) pressed =
     (if msg_type e \<noteq> NoteOn \<and> msg_type e \<noteq> NoteOff then pressed_after expected es pressed
      else if msg_note e \<notin> expected then pressed_after expected es pressed
      else if input_velocity e > 0 then pressed_after expected es (insert (msg_note e) pressed)
      else pressed_after expected es (pressed - {msg_note e}))"

definition after_rounds :: "round list \<Rightarrow> engine \<Rightarrow> engine" where
  "after_rounds rds s = foldl (\<lambda>s rd. gate_round rd s) s rds"

section \<open>Helpers for statements and concrete inputs\<close>


definition default_learn_colors :: "hand \<Rightarrow> note_type \<Rightarrow> bool \<Rightarrow> rgb" where
  "default_learn_colors h nt is_upcoming =
     (case (h, nt, is_upcoming) of
        (LeftHand, White, False) \<Rightarrow> [0, 255, 0]
      | (LeftHand, White, True) \<Rightarrow> [0, 128, 0]
      | (LeftHand, Black, False) \<Rightarrow> [0, 200, 0]
      | (LeftHand, Black, True) \<Rightarrow> [0, 100, 0]
      | (RightHand, White, False) \<Rightarrow> [0, 0, 255]
      | (RightHand, White, True) \<Rightarrow> [0, 0, 128]
      | (RightHand, Black, False) \<Rightarrow> [0, 0, 200]
      | (RightHand, Black, True) \<Rightarrow> [0, 0, 100])"

definition note_on :: "int \<Rightarrow> int \<Rightarrow> int \<Rightarrow> rat \<Rightarrow> msg" where
  "note_on ch n v t = \<lparr>msg_type = NoteOn, msg_note = n, msg_velocity = v, msg_channel = ch, msg_time = t\<rparr>"

definition meta_msg :: "rat \<Rightarrow> msg" where
  "meta_msg t = \<lparr>msg_type = MetaMsg, msg_note = 0, msg_velocity = 0, msg_channel = 0, msg_time = t\<rparr>"

definition example_learnmidi :: learnmidi where
  "example_learnmidi =
     \<lparr>loading = 4, practice = 0, hands = 1, mute_hand = 0, start_point = 0, end_point = 100,
      set_tempo = 100, show_wrong_notes = 1, show_future_notes = 1, notes_time = [],
      socket_send = [], pending_software_notes = [], next_note_time = None,
      next_note_delay = None, is_loop_active = 1, is_led_activeL = 1, is_led_activeR = 1,
      learn_colors = default_learn_colors, song_tempo = 500000,
      song_tracks = [note_on 1 60 64 480, meta_msg 10, note_on 2 48 64 240],
      ticks_per_beat = 480, is_started_midi = False, current_idx = 0, mistakes_count = 0,
      number_of_mistakes = 3, awaiting_restart_loop = False, playport = []\<rparr>"


text \<open>The window test of the spec: the start time lies in
  \<open>[current_time, current_time + fall_distance / 100]\<close>.\<close>

definition in_lookahead_window :: "renderer \<Rightarrow> note_data \<Rightarrow> bool" where
  "in_lookahead_window r n =
     (current_time r \<le> nd_start_time n \<and>
      nd_start_time n \<le> current_time r + fall_distance (rsettings r) / 100)"

definition example_note :: "int \<Rightarrow> rat \<Rightarrow> note_data" where
  "example_note n t =
     \<lparr>nd_midi_note = n, nd_channel = 1, nd_velocity = 64, nd_start_time = t, nd_duration = 1,
      nd_hand = RightHand, nd_note_type = get_note_type n\<rparr>"

text \<open>
  An active renderer with one subscriber, a lookahead of two seconds, the clock at five
  seconds, and two buffered notes starting at 6.5 and 8 seconds.
\<close>

definition example_renderer :: renderer where
  "example_renderer =
     renderer_init\<lparr>websocket_clients := [1], is_active := True, current_time := 5,
                   notes_buffer := [example_note 60 (13 / 2), example_note 62 8],
                   rsettings := default_settings\<lparr>fall_distance := 200\<rparr>\<rparr>"

definition sends_succeed :: "nat \<Rightarrow> bool" where
  "sends_succeed c = False"

definition is_stop :: "nat \<times> message \<Rightarrow> bool" where
  "is_stop e = (snd e = StopMessage)"

definition note_off :: "int \<Rightarrow> int \<Rightarrow> rat \<Rightarrow> msg" where
  "note_off ch n t = \<lparr>msg_type = NoteOff, msg_note = n, msg_velocity = 0, msg_channel = ch, msg_time = t\<rparr>"

text \<open>
  A practice run of the right hand in Melody mode over three messages: the right hand's
  note 60, the left hand's note 48 at the same time, and the release of 60 one beat later.
\<close>

definition example_engine :: engine where
  "example_engine =
     \<lparr>loading = 4, practice = 0, hands = 1, mute_hand = 0, start_point = 0, end_point = 100,
      set_tempo = 100, show_wrong_notes = 1, show_future_notes = 1, notes_time = [0, 0, 1 / 2],
      socket_send = [], pending_software_notes = [], next_note_time = None,
      next_note_delay = None, is_loop_active = 1, is_led_activeL = 1, is_led_activeR = 1,
      learn_colors = default_learn_colors, song_tempo = 500000,
      song_tracks = [note_on 1 60 64 0, note_on 2 48 64 0, note_off 1 60 480],
      ticks_per_beat = 480, is_started_midi = True, current_idx = 0, mistakes_count = 0,
      number_of_mistakes = 3, awaiting_restart_loop = False, playport = [],
      notes_to_press = [], notes_pressed = [], wrong_notes = [], absolute_idx = 0\<rparr>"

definition quiet :: msg_env where
  "quiet = \<lparr>stop_before = False, restart_before = False, gate_clock = 10, rounds = [],
            valve_clock = 12\<rparr>"

definition quiet_round :: round where
  "quiet_round = \<lparr>queued = [], stop_request = False, restart_request = False\<rparr>"

text \<open>A restart is requested while the second message is processed.\<close>

definition restart_at_second :: "nat \<Rightarrow> msg_env" where
  "restart_at_second i = (if i = 1 then quiet\<lparr>restart_before := True\<rparr> else quiet)"

text \<open>A restart is requested during the gate wait of the third message.\<close>

definition restart_in_gate :: "nat \<Rightarrow> msg_env" where
  "restart_in_gate i =
     (if i = 2 then quiet\<lparr>rounds := [quiet_round\<lparr>restart_request := True\<rparr>]\<rparr> else quiet)"

text \<open>Four wrong keys are struck during the gate wait of the third message.\<close>

definition four_wrong_in_gate :: "nat \<Rightarrow> msg_env" where
  "four_wrong_in_gate i =
     (if i = 2
      then quiet\<lparr>rounds := [quiet_round\<lparr>queued := [note_on 0 67 64 0, note_on 0 67 64 0,
                                                    note_on 0 67 64 0, note_on 0 67 64 0]\<rparr>]\<rparr>
      else quiet)"

text \<open>The condition under which the gate-wait loop is left at the head of a pass.\<close>

definition gate_exit :: "engine \<Rightarrow> bool" where
  "gate_exit s = (gate_satisfied s \<or> \<not> is_started_midi s \<or> awaiting_restart_loop s)"

definition qualifying :: "msg \<Rightarrow> bool" where
  "qualifying m = (input_velocity m > 0)"

text \<open>A gate on the notes 60 and 64, entered with nothing pressed.\<close>

definition two_note_gate :: engine where
  "two_note_gate = example_engine\<lparr>notes_to_press := [60, 64]\<rparr>"

definition deliver :: "msg list \<Rightarrow> round" where
  "deliver q = \<lparr>queued = q, stop_request = False, restart_request = False\<rparr>"

text \<open>A wrong key struck with a positive velocity, seen from state \<open>s\<close>.\<close>

definition forfeits :: "engine \<Rightarrow> msg \<Rightarrow> bool" where
  "forfeits s e =
     (msg_type e = NoteOn \<and> msg_velocity e > 0 \<and> msg_note e \<notin> set (notes_to_press s))"

text \<open>A gate on the note 60 with the display of wrong notes switched off.\<close>

definition unshown_gate :: engine where
  "unshown_gate = example_engine\<lparr>notes_to_press := [60], show_wrong_notes := 0\<rparr>"

text \<open>The example run with looping switched off.\<close>

definition unlooped_engine :: engine where
  "unlooped_engine = example_engine\<lparr>is_loop_active := 0\<rparr>"

definition with_mistakes :: "int \<Rightarrow> engine" where
  "with_mistakes c = example_engine\<lparr>mistakes_count := c\<rparr>"

text \<open>A note message whose note is not expected, seen from state \<open>s\<close>.\<close>

definition is_wrong :: "engine \<Rightarrow> msg \<Rightarrow> bool" where
  "is_wrong s e =
     ((msg_type e = NoteOn \<or> msg_type e = NoteOff) \<and> msg_note e \<notin> set (notes_to_press s))"

text \<open>Surroundings in which no request arrives before the message is looked at.\<close>

definition no_request_before :: "msg_env \<Rightarrow> bool" where
  "no_request_before env = (\<not> stop_before env \<and> \<not> restart_before env)"


section \<open>Timeline: monotone times\<close>

lemma notes_time_loop_sorted:
  "(\<forall>m\<in>set ms. 0 \<le> msg_time m) \<Longrightarrow> sorted nt \<Longrightarrow> (\<forall>t\<in>set nt. t \<le> tp) \<Longrightarrow> (\<forall>t\<in>set nt. 0 \<le> t) \<Longrightarrow> 0 \<le> tp \<Longrightarrow>
   sorted (notes_time_loop ms tp nt) \<and> (\<forall>t\<in>set (notes_time_loop ms tp nt). 0 \<le> t)"
proof (induction ms arbitrary: tp nt)
  case Nil
  then show ?case by simp
next
  case (Cons m ms)
  have rest: "\<forall>m\<in>set ms. 0 \<le> msg_time m" using Cons.prems(1) by simp
  show ?case
  proof (cases "is_meta m")
    case True
    then have eq: "notes_time_loop (m # ms) tp nt = notes_time_loop ms tp nt" by simp
    show ?thesis
      unfolding eq by (rule Cons.IH[OF rest Cons.prems(2) Cons.prems(3) Cons.prems(4) Cons.prems(5)])
  next
    case False
    then have eq: "notes_time_loop (m # ms) tp nt =
                   notes_time_loop ms (tp + msg_time m) (nt @ [tp + msg_time m])" by simp
    have t: "0 \<le> msg_time m" using Cons.prems(1) by simp
    have le: "\<forall>x\<in>set nt. x \<le> tp + msg_time m"
    proof
      fix x assume "x \<in> set nt"
      then have "x \<le> tp" using Cons.prems(3) by blast
      then show "x \<le> tp + msg_time m" using t by linarith
    qed
    have s1: "sorted (nt @ [tp + msg_time m])"
      using le Cons.prems(2) by (simp add: sorted_append)
    have s2: "\<forall>t\<in>set (nt @ [tp + msg_time m]). t \<le> tp + msg_time m"
      using le by simp
    have s4: "0 \<le> tp + msg_time m" using Cons.prems(5) t by linarith
    have s3: "\<forall>t\<in>set (nt @ [tp + msg_time m]). 0 \<le> t"
      using Cons.prems(4) s4 by simp
    show ?thesis
      unfolding eq by (rule Cons.IH[OF rest s1 s2 s3 s4])
  qed
qed

lemma notes_time_loop_length:
  "length (notes_time_loop ms tp nt) = length nt + length (filter (\<lambda>m. \<not> is_meta m) ms)"
  by (induction ms arbitrary: tp nt) auto

text \<open>
  C9.  When no source event has a negative time, the list \<open>notes_time\<close> built by
  \<open>load_midi\<close> is non-decreasing, every entry of it (the first in particular) is at least
  0, and it has one entry for each non-meta event.
\<close>

theorem timeline_monotone:
  assumes "\<forall>m\<in>set mid. 0 \<le> msg_time m"
  shows "sorted (load_notes_time mid) \<and> (\<forall>t\<in>set (load_notes_time mid). 0 \<le> t) \<and>
         (load_notes_time mid \<noteq> [] \<longrightarrow> 0 \<le> hd (load_notes_time mid)) \<and>
         length (load_notes_time mid) = length (filter (\<lambda>m. \<not> is_meta m) mid)"
proof -
  have a: "sorted (load_notes_time mid) \<and> (\<forall>t\<in>set (load_notes_time mid). 0 \<le> t)"
    unfolding load_notes_time_def using notes_time_loop_sorted[OF assms, of "[]" 0] by simp
  then have "load_notes_time mid \<noteq> [] \<longrightarrow> 0 \<le> hd (load_notes_time mid)"
    by (cases "load_notes_time mid") auto
  with a show ?thesis by (simp add: load_notes_time_def notes_time_loop_length)
qed

theorem timeline_monotone_witness:
  "load_notes_time [note_on 1 60 64 (1 / 2), meta_msg 3, note_on 1 62 64 (1 / 4)] = [1 / 2, 3 / 4] \<and>
   sorted (load_notes_time [note_on 1 60 64 (1 / 2), meta_msg 3, note_on 1 62 64 (1 / 4)]) \<and>
   0 \<le> hd (load_notes_time [note_on 1 60 64 (1 / 2), meta_msg 3, note_on 1 62 64 (1 / 4)])"
proof -
  let ?mid = "[note_on 1 60 64 (1 / 2), meta_msg 3, note_on 1 62 64 (1 / 4)]"
  have h: "\<forall>m\<in>set ?mid. 0 \<le> msg_time m"
    by (simp add: note_on_def meta_msg_def)
  have v: "load_notes_time ?mid = [1 / 2, 3 / 4]"
    by (simp add: load_notes_time_def note_on_def meta_msg_def is_meta_def)
  from timeline_monotone[OF h] v show ?thesis by simp
qed

section \<open>Timing arithmetic\<close>











section \<open>Renderer windowing\<close>

lemma piano_layout_loop_notes:
  "map pk_midi_note (piano_layout_loop ns w keys) = map pk_midi_note keys @ ns"
  by (induction ns arbitrary: w keys) (auto simp: Let_def)

lemma layout_notes: "map pk_midi_note generate_piano_layout = [21..108]"
  by (simp add: generate_piano_layout_def piano_layout_loop_notes)

lemma find_key_None: "find_key ks n = None \<longleftrightarrow> n \<notin> pk_midi_note ` set ks"
  by (induction ks) auto

lemma visible_notes_loop_eq:
  "visible_notes_loop lm r ns acc = Inr vs \<Longrightarrow>
   vs = acc @ map (\<lambda>n. visible_note lm r n (the (find_key (piano_keys r) (nd_midi_note n))))
          (filter (\<lambda>n. current_time r \<le> nd_start_time n \<and> nd_start_time n \<le> current_time r + lookahead_time r \<and> nd_midi_note n \<in> pk_midi_note ` set (piano_keys r)) ns)"
proof (induction ns arbitrary: acc)
  case Nil
  then show ?case by simp
next
  case (Cons n ns)
  show ?case
  proof (cases "current_time r \<le> nd_start_time n \<and> nd_start_time n \<le> current_time r + lookahead_time r")
    case False
    then have "visible_notes_loop lm r ns acc = Inr vs" using Cons.prems by auto
    from Cons.IH[OF this] False show ?thesis by auto
  next
    case True
    then have nz: "lookahead_time r \<noteq> 0" using Cons.prems by (auto split: if_splits)
    show ?thesis
    proof (cases "find_key (piano_keys r) (nd_midi_note n)")
      case None
      then have "visible_notes_loop lm r ns acc = Inr vs" using Cons.prems True nz by simp
      from Cons.IH[OF this] None show ?thesis by (simp add: find_key_None)
    next
      case (Some k)
      then have "visible_notes_loop lm r ns (acc @ [visible_note lm r n k]) = Inr vs"
        using Cons.prems True nz by simp
      from Cons.IH[OF this] Some True show ?thesis
        using find_key_None[of "piano_keys r" "nd_midi_note n"] by simp
    qed
  qed
qed

lemma visible_notes_loop_total:
  "lookahead_time r \<noteq> 0 \<Longrightarrow> \<exists>vs. visible_notes_loop lm r ns acc = Inr vs"
  by (induction ns arbitrary: acc) (simp_all split: option.splits)

text \<open>
  C6.  A frame is produced whenever \<open>fall_distance\<close> is not zero, and the visible notes of
  a produced frame are, in buffer order, the entries of exactly those buffered notes whose
  start time lies in \<open>[current_time, current_time + fall_distance / 100]\<close> and whose MIDI
  number has an entry in the keyboard layout.  The layout built at construction has the
  numbers 21 to 108.
\<close>

theorem renderer_windowing:
  "(fall_distance (rsettings r) \<noteq> 0 \<longrightarrow> (\<exists>f. generate_frame_data lm r = Inr f)) \<and>
   (\<forall>f. generate_frame_data lm r = Inr f \<longrightarrow>
      fd_notes f =
        map (\<lambda>n. visible_note lm r n (the (find_key (piano_keys r) (nd_midi_note n))))
          (filter (\<lambda>n. in_lookahead_window r n \<and>
                        nd_midi_note n \<in> pk_midi_note ` set (piano_keys r))
             (notes_buffer r))) \<and>
   pk_midi_note ` set (piano_keys renderer_init) = {21..108}"
proof -
  have a: "fall_distance (rsettings r) \<noteq> 0 \<longrightarrow> (\<exists>f. generate_frame_data lm r = Inr f)"
  proof
    assume "fall_distance (rsettings r) \<noteq> 0"
    then have "lookahead_time r \<noteq> 0" by (simp add: lookahead_time_def)
    from visible_notes_loop_total[OF this, of lm "notes_buffer r" "[]"]
    show "\<exists>f. generate_frame_data lm r = Inr f"
      by (auto simp: generate_frame_data_def)
  qed
  have b: "\<forall>f. generate_frame_data lm r = Inr f \<longrightarrow>
      fd_notes f =
        map (\<lambda>n. visible_note lm r n (the (find_key (piano_keys r) (nd_midi_note n))))
          (filter (\<lambda>n. in_lookahead_window r n \<and>
                        nd_midi_note n \<in> pk_midi_note ` set (piano_keys r))
             (notes_buffer r))"
  proof (intro allI impI)
    fix f assume f: "generate_frame_data lm r = Inr f"
    then obtain vs where vs: "visible_notes_loop lm r (notes_buffer r) [] = Inr vs"
      and fv: "fd_notes f = vs"
      by (auto simp: generate_frame_data_def split: sum.splits)
    from visible_notes_loop_eq[OF vs] fv
    show "fd_notes f =
        map (\<lambda>n. visible_note lm r n (the (find_key (piano_keys r) (nd_midi_note n))))
          (filter (\<lambda>n. in_lookahead_window r n \<and>
                        nd_midi_note n \<in> pk_midi_note ` set (piano_keys r))
             (notes_buffer r))"
      by (simp add: in_lookahead_window_def lookahead_time_def conj_assoc)
  qed
  have "set (map pk_midi_note generate_piano_layout) = {21..108}"
    by (simp only: layout_notes set_upto)
  then have c: "pk_midi_note ` set (piano_keys renderer_init) = {21..108}"
    by (simp add: renderer_init_def)
  from a b c show ?thesis by blast
qed

theorem renderer_windowing_witness:
  "\<exists>f. generate_frame_data example_learnmidi example_renderer = Inr f \<and>
       map fn_midi_note (fd_notes f) = [60]"
proof -
  have fd: "fall_distance (rsettings example_renderer) \<noteq> 0"
    by (simp add: example_renderer_def renderer_init_def default_settings_def)
  have keys: "pk_midi_note ` set (piano_keys example_renderer) = {21..108}"
    using renderer_windowing[of example_renderer example_learnmidi]
    by (simp add: example_renderer_def renderer_init_def)
  from renderer_windowing[of example_renderer example_learnmidi] fd
  obtain f where f: "generate_frame_data example_learnmidi example_renderer = Inr f"
    and n: "fd_notes f =
        map (\<lambda>n. visible_note example_learnmidi example_renderer n
                    (the (find_key (piano_keys example_renderer) (nd_midi_note n))))
          (filter (\<lambda>n. in_lookahead_window example_renderer n \<and>
                        nd_midi_note n \<in> pk_midi_note ` set (piano_keys example_renderer))
             (notes_buffer example_renderer))"
    by blast
  have w1: "in_lookahead_window example_renderer (example_note 60 (13 / 2))"
    by (simp add: in_lookahead_window_def example_renderer_def renderer_init_def
        default_settings_def example_note_def)
  have w2: "\<not> in_lookahead_window example_renderer (example_note 62 8)"
    by (simp add: in_lookahead_window_def example_renderer_def renderer_init_def
        default_settings_def example_note_def)
  have buf: "notes_buffer example_renderer = [example_note 60 (13 / 2), example_note 62 8]"
    by (simp add: example_renderer_def renderer_init_def)
  have k: "nd_midi_note (example_note 60 (13 / 2)) \<in> {21..108}"
    by (simp add: example_note_def)
  have "map fn_midi_note (fd_notes f) = [60]"
    unfolding n keys buf using w1 w2 k
    by (simp add: visible_note_def Let_def example_note_def)
  with f show ?thesis by (intro exI[of _ f] conjI)
qed

section \<open>Stopping the renderer\<close>

text \<open>
  C7, as the code has it.  On a renderer that is already stopped (inactive, with an empty
  buffer) \<open>stop_animation\<close> raises nothing and changes neither \<open>is_active\<close>, the buffer,
  the times, the layout nor the settings; but it broadcasts again: every subscriber whose
  send succeeds receives one more stop message, and a subscriber whose send fails is
  dropped.
\<close>

theorem stop_animation_stopped:
  "\<not> is_active r \<Longrightarrow> notes_buffer r = [] \<Longrightarrow>
   stop_animation send_fails r =
     r\<lparr>outbox := outbox r @
           map (\<lambda>c. (c, StopMessage)) (filter (\<lambda>c. \<not> send_fails c) (websocket_clients r)),
       websocket_clients := filter (\<lambda>c. \<not> send_fails c) (websocket_clients r)\<rparr>"
  by (simp add: stop_animation_def broadcast_to_clients_def)

theorem stop_animation_stopped_witness:
  "outbox (stop_animation sends_succeed (stop_animation sends_succeed example_renderer)) =
     outbox (stop_animation sends_succeed example_renderer) @ [(1, StopMessage)] \<and>
   \<not> is_active (stop_animation sends_succeed (stop_animation sends_succeed example_renderer))"
proof -
  let ?r1 = "stop_animation sends_succeed example_renderer"
  have a: "\<not> is_active ?r1"
    by (simp add: stop_animation_def broadcast_to_clients_def)
  have b: "notes_buffer ?r1 = []"
    by (simp add: stop_animation_def broadcast_to_clients_def)
  have c: "websocket_clients ?r1 = [1]"
    by (simp add: stop_animation_def broadcast_to_clients_def example_renderer_def
        renderer_init_def sends_succeed_def)
  show ?thesis
    unfolding stop_animation_stopped[OF a b, of sends_succeed] c using a
    by (simp add: sends_succeed_def)
qed

text \<open>
  The claim as stated fails: with one subscriber, the first stop delivers a stop message and
  a second stop, on the stopped renderer, delivers another one.
\<close>

theorem stop_animation_not_idempotent:
  "length (filter is_stop (outbox (stop_animation sends_succeed example_renderer))) = 1 \<and>
   length (filter is_stop
     (outbox (stop_animation sends_succeed (stop_animation sends_succeed example_renderer)))) = 2 \<and>
   stop_animation sends_succeed (stop_animation sends_succeed example_renderer)
     \<noteq> stop_animation sends_succeed example_renderer"
proof -
  have o1: "outbox (stop_animation sends_succeed example_renderer) = [(1, StopMessage)]"
    by (simp add: stop_animation_def broadcast_to_clients_def example_renderer_def
        renderer_init_def sends_succeed_def)
  have o2: "outbox (stop_animation sends_succeed (stop_animation sends_succeed example_renderer))
            = [(1, StopMessage), (1, StopMessage)]"
    by (simp add: stop_animation_def broadcast_to_clients_def example_renderer_def
        renderer_init_def sends_succeed_def)
  have "outbox (stop_animation sends_succeed (stop_animation sends_succeed example_renderer))
        \<noteq> outbox (stop_animation sends_succeed example_renderer)"
    unfolding o1 o2 by simp
  then have "stop_animation sends_succeed (stop_animation sends_succeed example_renderer)
     \<noteq> stop_animation sends_succeed example_renderer"
    by auto
  then show ?thesis unfolding o1 o2 by (simp add: is_stop_def)
qed

section \<open>Position sync\<close>

text \<open>
  C10.  A call of \<open>sync_with_learn_midi\<close> on a renderer whose \<open>is_active\<close> flag is false
  returns the renderer unchanged.  On an active renderer it stores the position in
  \<open>current_time\<close> and changes no other field: the result is the old renderer with only
  \<open>current_time\<close> replaced.
\<close>

theorem sync_with_learn_midi_frame:
  "(\<not> is_active r \<longrightarrow> sync_with_learn_midi r p = r) \<and>
   (is_active r \<longrightarrow>
      current_time (sync_with_learn_midi r p) = p \<and>
      sync_with_learn_midi r p = r\<lparr>current_time := p\<rparr> \<and>
      websocket_clients (sync_with_learn_midi r p) = websocket_clients r \<and>
      is_active (sync_with_learn_midi r p) = is_active r \<and>
      animation_thread (sync_with_learn_midi r p) = animation_thread r \<and>
      notes_buffer (sync_with_learn_midi r p) = notes_buffer r \<and>
      start_time (sync_with_learn_midi r p) = start_time r \<and>
      piano_keys (sync_with_learn_midi r p) = piano_keys r \<and>
      rsettings (sync_with_learn_midi r p) = rsettings r \<and>
      outbox (sync_with_learn_midi r p) = outbox r)"
  by (simp add: sync_with_learn_midi_def)

theorem sync_with_learn_midi_frame_witness:
  "sync_with_learn_midi renderer_init 7 = renderer_init \<and>
   current_time (sync_with_learn_midi example_renderer 7) = 7 \<and>
   notes_buffer (sync_with_learn_midi example_renderer 7) = notes_buffer example_renderer \<and>
   websocket_clients (sync_with_learn_midi example_renderer 7) = [1]"
proof -
  have a: "\<not> is_active renderer_init" by (simp add: renderer_init_def)
  have b: "is_active example_renderer" by (simp add: example_renderer_def)
  have c: "websocket_clients example_renderer = [1]" by (simp add: example_renderer_def)
  from sync_with_learn_midi_frame[of renderer_init 7] a
       sync_with_learn_midi_frame[of example_renderer 7] b c
  show ?thesis by simp
qed

section \<open>Practice engine: what each step leaves alone\<close>

lemma drain_frame:
  "notes_to_press (drain q s) = notes_to_press s \<and>
   current_idx (drain q s) = current_idx s \<and>
   absolute_idx (drain q s) = absolute_idx s \<and>
   playport (drain q s) = playport s \<and>
   is_started_midi (drain q s) = is_started_midi s \<and>
   awaiting_restart_loop (drain q s) = awaiting_restart_loop s \<and>
   mistakes_count (drain q s) = mistakes_count s \<and>
   show_wrong_notes (drain q s) = show_wrong_notes s \<and>
   number_of_mistakes (drain q s) = number_of_mistakes s"
  by (induction q arbitrary: s) simp_all

lemma wrong_notes_loop_frame:
  "notes_to_press (wrong_notes_loop wn s) = notes_to_press s \<and>
   notes_pressed (wrong_notes_loop wn s) = notes_pressed s \<and>
   current_idx (wrong_notes_loop wn s) = current_idx s \<and>
   absolute_idx (wrong_notes_loop wn s) = absolute_idx s \<and>
   playport (wrong_notes_loop wn s) = playport s \<and>
   pending_software_notes (wrong_notes_loop wn s) = pending_software_notes s \<and>
   is_started_midi (wrong_notes_loop wn s) = is_started_midi s \<and>
   awaiting_restart_loop (wrong_notes_loop wn s) = awaiting_restart_loop s \<and>
   show_wrong_notes (wrong_notes_loop wn s) = show_wrong_notes s \<and>
   number_of_mistakes (wrong_notes_loop wn s) = number_of_mistakes s"
  by (induction wn arbitrary: s) simp_all

lemma wrong_notes_loop_count:
  "mistakes_count (wrong_notes_loop wn s) = mistakes_count s + int (length (filter qualifying wn))"
  by (induction wn arbitrary: s) (simp_all add: qualifying_def)

lemma handle_wrong_notes_frame:
  "notes_to_press (handle_wrong_notes wn s) = notes_to_press s \<and>
   notes_pressed (handle_wrong_notes wn s) = notes_pressed s \<and>
   current_idx (handle_wrong_notes wn s) = current_idx s \<and>
   absolute_idx (handle_wrong_notes wn s) = absolute_idx s \<and>
   playport (handle_wrong_notes wn s) = playport s \<and>
   pending_software_notes (handle_wrong_notes wn s) = pending_software_notes s \<and>
   is_started_midi (handle_wrong_notes wn s) = is_started_midi s"
  by (simp add: handle_wrong_notes_def Let_def restart_loop_def wrong_notes_loop_frame)

lemma apply_requests_frame:
  "notes_to_press (apply_requests a b s) = notes_to_press s \<and>
   notes_pressed (apply_requests a b s) = notes_pressed s \<and>
   current_idx (apply_requests a b s) = current_idx s \<and>
   absolute_idx (apply_requests a b s) = absolute_idx s \<and>
   playport (apply_requests a b s) = playport s \<and>
   pending_software_notes (apply_requests a b s) = pending_software_notes s"
  by (simp add: apply_requests_def Let_def restart_loop_def)

lemma gate_round_frame:
  "notes_to_press (gate_round rd s) = notes_to_press s \<and>
   notes_pressed (gate_round rd s) = notes_pressed (drain (queued rd) s) \<and>
   current_idx (gate_round rd s) = current_idx s \<and>
   absolute_idx (gate_round rd s) = absolute_idx s \<and>
   playport (gate_round rd s) = playport s"
  by (simp add: gate_round_def Let_def apply_requests_frame handle_wrong_notes_frame drain_frame)

lemma after_rounds_Nil: "after_rounds [] s = s"
  by (simp add: after_rounds_def)

lemma after_rounds_Cons: "after_rounds (rd # rds) s = after_rounds rds (gate_round rd s)"
  by (simp add: after_rounds_def)

lemma after_rounds_frame:
  "notes_to_press (after_rounds rds s) = notes_to_press s \<and>
   current_idx (after_rounds rds s) = current_idx s \<and>
   absolute_idx (after_rounds rds s) = absolute_idx s \<and>
   playport (after_rounds rds s) = playport s"
  by (induction rds arbitrary: s) (simp_all add: after_rounds_Nil after_rounds_Cons gate_round_frame)

section \<open>The pressed notes as a set\<close>

lemma drain_pressed:
  "distinct (notes_pressed s) \<Longrightarrow>
   distinct (notes_pressed (drain q s)) \<and>
   set (notes_pressed (drain q s)) =
     pressed_after (set (notes_to_press s)) q (set (notes_pressed s))"
proof (induction q arbitrary: s)
  case Nil
  then show ?case by simp
next
  case (Cons e q)
  show ?case
  proof (cases "msg_type e \<noteq> NoteOn \<and> msg_type e \<noteq> NoteOff")
    case True
    then show ?thesis using Cons.IH[OF Cons.prems] by simp
  next
    case note_msg: False
    show ?thesis
    proof (cases "msg_note e \<in> set (notes_to_press s)")
      case False
      let ?s = "(if input_velocity e > 0 then s\<lparr>pending_software_notes := []\<rparr> else s)
                   \<lparr>wrong_notes := wrong_notes s @ [e]\<rparr>"
      have d: "distinct (notes_pressed ?s)" using Cons.prems by simp
      have eq: "drain (e # q) s = drain q ?s" using note_msg False by auto
      have "notes_to_press ?s = notes_to_press s" "notes_pressed ?s = notes_pressed s" by simp_all
      with Cons.IH[OF d] show ?thesis unfolding eq using note_msg False by auto
    next
      case True
      show ?thesis
      proof (cases "input_velocity e > 0")
        case off: False
        let ?s = "s\<lparr>notes_pressed := remove1 (msg_note e) (notes_pressed s)\<rparr>"
        have d: "distinct (notes_pressed ?s)" using Cons.prems by simp
        have eq: "drain (e # q) s = drain q ?s" using note_msg True off by auto
        have "set (notes_pressed ?s) = set (notes_pressed s) - {msg_note e}"
          using Cons.prems by simp
        with Cons.IH[OF d] show ?thesis unfolding eq using note_msg True off by auto
      next
        case on: True
        show ?thesis
        proof (cases "msg_note e \<in> set (notes_pressed s)")
          case True
          have eq: "drain (e # q) s = drain q s" using note_msg \<open>msg_note e \<in> set (notes_to_press s)\<close> on True by auto
          have "insert (msg_note e) (set (notes_pressed s)) = set (notes_pressed s)"
            using True by auto
          with Cons.IH[OF Cons.prems] show ?thesis unfolding eq
            using note_msg \<open>msg_note e \<in> set (notes_to_press s)\<close> on by auto
        next
          case False
          let ?s = "s\<lparr>notes_pressed := notes_pressed s @ [msg_note e]\<rparr>"
          have d: "distinct (notes_pressed ?s)" using Cons.prems False by simp
          have eq: "drain (e # q) s = drain q ?s"
            using note_msg \<open>msg_note e \<in> set (notes_to_press s)\<close> on False by auto
          have "set (notes_pressed ?s) = insert (msg_note e) (set (notes_pressed s))" by simp
          with Cons.IH[OF d] show ?thesis unfolding eq
            using note_msg \<open>msg_note e \<in> set (notes_to_press s)\<close> on by auto
        qed
      qed
    qed
  qed
qed

lemma pressed_after_append:
  "pressed_after E (a @ b) P = pressed_after E b (pressed_after E a P)"
  by (induction a arbitrary: P) simp_all

lemma gate_round_pressed:
  "distinct (notes_pressed s) \<Longrightarrow>
   distinct (notes_pressed (gate_round rd s)) \<and>
   set (notes_pressed (gate_round rd s)) =
     pressed_after (set (notes_to_press s)) (queued rd) (set (notes_pressed s))"
  using drain_pressed[of s "queued rd"] by (simp add: gate_round_frame)

lemma after_rounds_pressed:
  "distinct (notes_pressed s) \<Longrightarrow>
   set (notes_pressed (after_rounds rds s)) =
     pressed_after (set (notes_to_press s)) (concat (map queued rds)) (set (notes_pressed s))"
proof (induction rds arbitrary: s)
  case Nil
  then show ?case by (simp add: after_rounds_Nil)
next
  case (Cons rd rds)
  from gate_round_pressed[OF Cons.prems, of rd]
  have d: "distinct (notes_pressed (gate_round rd s))"
    and p: "set (notes_pressed (gate_round rd s)) =
            pressed_after (set (notes_to_press s)) (queued rd) (set (notes_pressed s))"
    by simp_all
  from Cons.IH[OF d] p show ?case
    by (simp add: after_rounds_Cons gate_round_frame pressed_after_append)
qed

lemma pressed_after_note_ons:
  "\<forall>e\<in>set q. msg_type e = NoteOn \<and> msg_velocity e > 0 \<and> msg_note e \<in> E \<Longrightarrow>
   pressed_after E q P = P \<union> msg_note ` set q"
  by (induction q arbitrary: P) (auto simp: input_velocity_def)

section \<open>The gate wait: first exit\<close>

lemma gate_wait_first_exit:
  "\<exists>k\<le>length rds.
     run_state (gate_wait rds s) = after_rounds (take k rds) s \<and>
     (\<forall>j<k. \<not> gate_exit (after_rounds (take j rds) s)) \<and>
     (if is_done (gate_wait rds s) then gate_exit (after_rounds (take k rds) s)
      else k = length rds \<and> \<not> gate_exit (after_rounds rds s))"
proof (induction rds arbitrary: s)
  case Nil
  show ?case by (simp add: after_rounds_Nil gate_exit_def)
next
  case (Cons rd rds)
  show ?case
  proof (cases "gate_exit s")
    case True
    then have "gate_wait (rd # rds) s = Done s" by (auto simp: gate_exit_def)
    with True show ?thesis
      by (intro exI[of _ 0]) (simp add: after_rounds_Nil)
  next
    case False
    then have eq: "gate_wait (rd # rds) s = gate_wait rds (gate_round rd s)"
      by (auto simp: gate_exit_def)
    from Cons.IH[of "gate_round rd s"] obtain k where k: "k \<le> length rds"
      and st: "run_state (gate_wait rds (gate_round rd s)) = after_rounds (take k rds) (gate_round rd s)"
      and before: "\<forall>j<k. \<not> gate_exit (after_rounds (take j rds) (gate_round rd s))"
      and last: "if is_done (gate_wait rds (gate_round rd s))
                 then gate_exit (after_rounds (take k rds) (gate_round rd s))
                 else k = length rds \<and> \<not> gate_exit (after_rounds rds (gate_round rd s))"
      by blast
    have b: "\<forall>j<Suc k. \<not> gate_exit (after_rounds (take j (rd # rds)) s)"
    proof (intro allI impI)
      fix j assume j: "j < Suc k"
      show "\<not> gate_exit (after_rounds (take j (rd # rds)) s)"
      proof (cases j)
        case 0
        then show ?thesis using False by (simp add: after_rounds_Nil)
      next
        case (Suc j')
        then have "j' < k" using j by simp
        with before Suc show ?thesis by (simp add: after_rounds_Cons)
      qed
    qed
    show ?thesis
      unfolding eq
      using k st b last
      by (intro exI[of _ "Suc k"]) (simp add: after_rounds_Cons split: if_splits)
  qed
qed

section \<open>The gate wait: correctness\<close>

text \<open>
  C2.  The gate-wait loop, entered with a duplicate-free list of pressed notes, runs pass
  after pass up to the first test of its condition at which the gate is satisfied, the run
  is cancelled or a restart is requested, and it is still waiting when the recorded input
  ends before that.  At each test the gate is satisfied exactly when the expected notes
  that are down (expected note-ons with a positive velocity, minus later releases) include
  all of \<open>notes_to_press\<close>.  A loop that ends without cancellation or restart ends satisfied,
  a loop that is still waiting is not satisfied, and in either case neither cursor has
  moved.  Two queues of expected note-ons with the same notes leave the same notes pressed,
  whatever their order.
\<close>

theorem gate_wait_correct:
  assumes "distinct (notes_pressed s)"
  shows
   "(\<exists>k\<le>length rds.
       run_state (gate_wait rds s) = after_rounds (take k rds) s \<and>
       (\<forall>j<k. \<not> gate_exit (after_rounds (take j rds) s)) \<and>
       (if is_done (gate_wait rds s) then gate_exit (after_rounds (take k rds) s)
        else k = length rds \<and> \<not> gate_exit (after_rounds rds s))) \<and>
    (\<forall>k\<le>length rds. gate_satisfied (after_rounds (take k rds) s) \<longleftrightarrow>
        set (notes_to_press s) \<subseteq>
          pressed_after (set (notes_to_press s)) (concat (map queued (take k rds)))
            (set (notes_pressed s))) \<and>
    (\<forall>s'. gate_wait rds s = Done s' \<and> is_started_midi s' \<and> \<not> awaiting_restart_loop s'
        \<longrightarrow> gate_satisfied s') \<and>
    (\<forall>s'. gate_wait rds s = Waiting s'
        \<longrightarrow> \<not> gate_satisfied s' \<and> is_started_midi s' \<and> \<not> awaiting_restart_loop s') \<and>
    current_idx (run_state (gate_wait rds s)) = current_idx s \<and>
    absolute_idx (run_state (gate_wait rds s)) = absolute_idx s \<and>
    (\<forall>q1 q2. (\<forall>e\<in>set q1 \<union> set q2. msg_type e = NoteOn \<and> msg_velocity e > 0 \<and>
                  msg_note e \<in> set (notes_to_press s)) \<and>
             msg_note ` set q1 = msg_note ` set q2
        \<longrightarrow> set (notes_pressed (drain q1 s)) = set (notes_pressed (drain q2 s)))"
proof -
  from gate_wait_first_exit[of rds s] obtain k where k: "k \<le> length rds"
    and st: "run_state (gate_wait rds s) = after_rounds (take k rds) s"
    and before: "\<forall>j<k. \<not> gate_exit (after_rounds (take j rds) s)"
    and last: "if is_done (gate_wait rds s) then gate_exit (after_rounds (take k rds) s)
               else k = length rds \<and> \<not> gate_exit (after_rounds rds s)"
    by blast
  have c1: "\<exists>k\<le>length rds.
       run_state (gate_wait rds s) = after_rounds (take k rds) s \<and>
       (\<forall>j<k. \<not> gate_exit (after_rounds (take j rds) s)) \<and>
       (if is_done (gate_wait rds s) then gate_exit (after_rounds (take k rds) s)
        else k = length rds \<and> \<not> gate_exit (after_rounds rds s))"
    using k st before last by blast
  have c2: "\<forall>k\<le>length rds. gate_satisfied (after_rounds (take k rds) s) \<longleftrightarrow>
        set (notes_to_press s) \<subseteq>
          pressed_after (set (notes_to_press s)) (concat (map queued (take k rds)))
            (set (notes_pressed s))"
    using after_rounds_pressed[OF assms]
    by (simp add: gate_satisfied_def after_rounds_frame)
  have c3: "\<forall>s'. gate_wait rds s = Done s' \<and> is_started_midi s' \<and> \<not> awaiting_restart_loop s'
        \<longrightarrow> gate_satisfied s'"
  proof (intro allI impI)
    fix s' assume a: "gate_wait rds s = Done s' \<and> is_started_midi s' \<and> \<not> awaiting_restart_loop s'"
    then have "s' = after_rounds (take k rds) s" using st by simp
    moreover have "gate_exit (after_rounds (take k rds) s)" using last a by simp
    ultimately show "gate_satisfied s'" using a by (simp add: gate_exit_def)
  qed
  have c4: "\<forall>s'. gate_wait rds s = Waiting s'
        \<longrightarrow> \<not> gate_satisfied s' \<and> is_started_midi s' \<and> \<not> awaiting_restart_loop s'"
  proof (intro allI impI)
    fix s' assume a: "gate_wait rds s = Waiting s'"
    then have "s' = after_rounds (take k rds) s" using st by simp
    moreover have "k = length rds \<and> \<not> gate_exit (after_rounds rds s)" using last a by simp
    ultimately show "\<not> gate_satisfied s' \<and> is_started_midi s' \<and> \<not> awaiting_restart_loop s'"
      by (simp add: gate_exit_def)
  qed
  have c5: "current_idx (run_state (gate_wait rds s)) = current_idx s"
    and c6: "absolute_idx (run_state (gate_wait rds s)) = absolute_idx s"
    unfolding st by (simp_all add: after_rounds_frame)
  have c7: "\<forall>q1 q2. (\<forall>e\<in>set q1 \<union> set q2. msg_type e = NoteOn \<and> msg_velocity e > 0 \<and>
                  msg_note e \<in> set (notes_to_press s)) \<and>
             msg_note ` set q1 = msg_note ` set q2
        \<longrightarrow> set (notes_pressed (drain q1 s)) = set (notes_pressed (drain q2 s))"
  proof (intro allI impI)
    fix q1 q2 :: "msg list"
    assume a: "(\<forall>e\<in>set q1 \<union> set q2. msg_type e = NoteOn \<and> msg_velocity e > 0 \<and>
                  msg_note e \<in> set (notes_to_press s)) \<and>
             msg_note ` set q1 = msg_note ` set q2"
    then have a1: "\<forall>e\<in>set q1. msg_type e = NoteOn \<and> msg_velocity e > 0 \<and>
                  msg_note e \<in> set (notes_to_press s)"
      and a2: "\<forall>e\<in>set q2. msg_type e = NoteOn \<and> msg_velocity e > 0 \<and>
                  msg_note e \<in> set (notes_to_press s)"
      by blast+
    have "set (notes_pressed (drain q1 s)) = set (notes_pressed s) \<union> msg_note ` set q1"
      using drain_pressed[OF assms, of q1] pressed_after_note_ons[OF a1] by simp
    moreover have "set (notes_pressed (drain q2 s)) = set (notes_pressed s) \<union> msg_note ` set q2"
      using drain_pressed[OF assms, of q2] pressed_after_note_ons[OF a2] by simp
    ultimately show "set (notes_pressed (drain q1 s)) = set (notes_pressed (drain q2 s))"
      using a by simp
  qed
  from c1 c2 c3 c4 c5 c6 c7 show ?thesis by blast
qed

lemma two_note_gate_fields:
  "notes_to_press two_note_gate = [60, 64]" "notes_pressed two_note_gate = []"
  "is_started_midi two_note_gate" "\<not> awaiting_restart_loop two_note_gate"
  "show_wrong_notes two_note_gate = 1" "mistakes_count two_note_gate = 0"
  "number_of_mistakes two_note_gate = 3" "current_idx two_note_gate = 0"
  by (simp_all add: two_note_gate_def example_engine_def)

lemma is_done_Done: "is_done r \<Longrightarrow> r = Done (run_state r)"
  by (cases r) simp_all

lemma not_done_Waiting: "\<not> is_done r \<Longrightarrow> r = Waiting (run_state r)"
  by (cases r) simp_all

theorem gate_wait_correct_witness:
  "gate_satisfied (run_state (gate_wait [deliver [note_on 1 60 64 0], deliver [note_on 1 64 64 0]]
      two_note_gate)) \<and>
   gate_satisfied (run_state (gate_wait [deliver [note_on 1 64 64 0], deliver [note_on 1 60 64 0]]
      two_note_gate)) \<and>
   \<not> gate_satisfied (run_state (gate_wait [deliver [note_on 1 60 64 0]] two_note_gate)) \<and>
   current_idx (run_state (gate_wait [deliver [note_on 1 60 64 0]] two_note_gate)) = 0"
proof -
  let ?a = "deliver [note_on 1 60 64 0]" and ?b = "deliver [note_on 1 64 64 0]"
  have d: "distinct (notes_pressed two_note_gate)" by (simp add: two_note_gate_fields)
  note T1 = gate_wait_correct[OF d, of "[?a, ?b]"]
  note T2 = gate_wait_correct[OF d, of "[?b, ?a]"]
  note T3 = gate_wait_correct[OF d, of "[?a]"]
  have e1: "is_done (gate_wait [?a, ?b] two_note_gate)" by code_simp
  have e1s: "is_started_midi (run_state (gate_wait [?a, ?b] two_note_gate))" by code_simp
  have e1a: "\<not> awaiting_restart_loop (run_state (gate_wait [?a, ?b] two_note_gate))" by code_simp
  have e2: "is_done (gate_wait [?b, ?a] two_note_gate)" by code_simp
  have e2s: "is_started_midi (run_state (gate_wait [?b, ?a] two_note_gate))" by code_simp
  have e2a: "\<not> awaiting_restart_loop (run_state (gate_wait [?b, ?a] two_note_gate))" by code_simp
  have e3: "\<not> is_done (gate_wait [?a] two_note_gate)" by code_simp
  have s1: "gate_satisfied (run_state (gate_wait [?a, ?b] two_note_gate))"
    by (rule T1[THEN conjunct2, THEN conjunct2, THEN conjunct1, rule_format,
          OF conjI[OF is_done_Done[OF e1] conjI[OF e1s e1a]]])
  have s2: "gate_satisfied (run_state (gate_wait [?b, ?a] two_note_gate))"
    by (rule T2[THEN conjunct2, THEN conjunct2, THEN conjunct1, rule_format,
          OF conjI[OF is_done_Done[OF e2] conjI[OF e2s e2a]]])
  have s3: "\<not> gate_satisfied (run_state (gate_wait [?a] two_note_gate))"
    by (rule T3[THEN conjunct2, THEN conjunct2, THEN conjunct2, THEN conjunct1, rule_format,
          OF not_done_Waiting[OF e3], THEN conjunct1])
  have "current_idx (run_state (gate_wait [?a] two_note_gate)) = current_idx two_note_gate"
    by (rule T3[THEN conjunct2, THEN conjunct2, THEN conjunct2, THEN conjunct2, THEN conjunct1])
  then have s4: "current_idx (run_state (gate_wait [?a] two_note_gate)) = 0"
    by (simp add: two_note_gate_fields)
  from s1 s2 s3 s4 show ?thesis by (intro conjI)
qed

section \<open>The batch of wrong notes\<close>

lemma forfeits_cong:
  "notes_to_press s' = notes_to_press s \<Longrightarrow> forfeits s' e = forfeits s e"
  by (simp add: forfeits_def)

lemma handle_wrong_notes_count:
  "show_wrong_notes s = 1 \<Longrightarrow>
   mistakes_count (handle_wrong_notes wn s) =
     (if mistakes_count s + int (length (filter qualifying wn)) > number_of_mistakes s \<and>
         number_of_mistakes s > 0
      then 0 else mistakes_count s + int (length (filter qualifying wn)))"
  by (simp add: handle_wrong_notes_def Let_def restart_loop_def wrong_notes_loop_count
      wrong_notes_loop_frame)

lemma handle_wrong_notes_restart:
  "show_wrong_notes s = 1 \<Longrightarrow>
   awaiting_restart_loop (handle_wrong_notes wn s) =
     (if mistakes_count s + int (length (filter qualifying wn)) > number_of_mistakes s \<and>
         number_of_mistakes s > 0
      then True else awaiting_restart_loop s)"
  by (simp add: handle_wrong_notes_def Let_def restart_loop_def wrong_notes_loop_count
      wrong_notes_loop_frame)

lemma is_wrong_cong:
  "notes_to_press s' = notes_to_press s \<Longrightarrow> is_wrong s' e = is_wrong s e"
  by (simp add: is_wrong_def)

lemma drain_wrong_notes:
  "wrong_notes (drain q s) = wrong_notes s @ filter (is_wrong s) q"
proof (induction q arbitrary: s)
  case Nil
  show ?case by simp
next
  case (Cons e q)
  show ?case
  proof (cases "msg_type e \<noteq> NoteOn \<and> msg_type e \<noteq> NoteOff")
    case True
    then have eq: "drain (e # q) s = drain q s" by simp
    have nw: "\<not> is_wrong s e" using True by (simp add: is_wrong_def)
    show ?thesis unfolding eq Cons.IH[of s] using nw by simp
  next
    case note_msg: False
    show ?thesis
    proof (cases "msg_note e \<in> set (notes_to_press s)")
      case True
      have nw: "\<not> is_wrong s e" using True by (simp add: is_wrong_def)
      show ?thesis
      proof (cases "input_velocity e > 0")
        case on: True
        show ?thesis
        proof (cases "msg_note e \<in> set (notes_pressed s)")
          case pressed: True
          have eq: "drain (e # q) s = drain q s" using note_msg True on pressed by auto
          show ?thesis unfolding eq Cons.IH[of s] using nw by simp
        next
          case fresh: False
          let ?s = "s\<lparr>notes_pressed := notes_pressed s @ [msg_note e]\<rparr>"
          have eq: "drain (e # q) s = drain q ?s" using note_msg True on fresh by auto
          have fc: "\<And>x. is_wrong ?s x = is_wrong s x" by (rule is_wrong_cong) simp
          show ?thesis unfolding eq Cons.IH[of ?s] fc using nw by simp
        qed
      next
        case off: False
        let ?s = "s\<lparr>notes_pressed := remove1 (msg_note e) (notes_pressed s)\<rparr>"
        have eq: "drain (e # q) s = drain q ?s" using note_msg True off by auto
        have fc: "\<And>x. is_wrong ?s x = is_wrong s x" by (rule is_wrong_cong) simp
        show ?thesis unfolding eq Cons.IH[of ?s] fc using nw by simp
      qed
    next
      case wrong: False
      have w: "is_wrong s e" using note_msg wrong by (auto simp: is_wrong_def)
      show ?thesis
      proof (cases "input_velocity e > 0")
        case on: True
        let ?s = "s\<lparr>pending_software_notes := [], wrong_notes := wrong_notes s @ [e]\<rparr>"
        have eq: "drain (e # q) s = drain q ?s" using note_msg wrong on by auto
        have fc: "\<And>x. is_wrong ?s x = is_wrong s x" by (rule is_wrong_cong) simp
        show ?thesis unfolding eq Cons.IH[of ?s] fc using w by simp
      next
        case off: False
        let ?s = "s\<lparr>wrong_notes := wrong_notes s @ [e]\<rparr>"
        have eq: "drain (e # q) s = drain q ?s" using note_msg wrong off by auto
        have fc: "\<And>x. is_wrong ?s x = is_wrong s x" by (rule is_wrong_cong) simp
        show ?thesis unfolding eq Cons.IH[of ?s] fc using w by simp
      qed
    qed
  qed
qed

lemma qualifying_wrong:
  "filter qualifying (filter (is_wrong s) q) = filter (forfeits s) q"
proof -
  have "\<And>e. (is_wrong s e \<and> qualifying e) = forfeits s e"
    by (auto simp: is_wrong_def qualifying_def forfeits_def input_velocity_def)
  then show ?thesis by (simp add: filter_filter)
qed

lemma wrong_notes_loop_frame2:
  "wrong_notes (wrong_notes_loop wn s) = wrong_notes s \<and>
   is_loop_active (wrong_notes_loop wn s) = is_loop_active s"
  by (induction wn arbitrary: s) simp_all

lemma handle_wrong_notes_frame2:
  "wrong_notes (handle_wrong_notes wn s) = wrong_notes s \<and>
   show_wrong_notes (handle_wrong_notes wn s) = show_wrong_notes s \<and>
   number_of_mistakes (handle_wrong_notes wn s) = number_of_mistakes s \<and>
   is_loop_active (handle_wrong_notes wn s) = is_loop_active s"
  by (simp add: handle_wrong_notes_def Let_def restart_loop_def wrong_notes_loop_frame
      wrong_notes_loop_frame2)

lemma apply_requests_frame2:
  "wrong_notes (apply_requests a b s) = wrong_notes s \<and>
   mistakes_count (apply_requests a b s) = mistakes_count s \<and>
   show_wrong_notes (apply_requests a b s) = show_wrong_notes s \<and>
   number_of_mistakes (apply_requests a b s) = number_of_mistakes s \<and>
   is_loop_active (apply_requests a b s) = is_loop_active s"
  by (simp add: apply_requests_def Let_def restart_loop_def)

lemma gate_round_wrong_notes: "wrong_notes (gate_round rd s) = []"
  by (simp add: gate_round_def Let_def apply_requests_frame2)

lemma gate_round_settings:
  "show_wrong_notes (gate_round rd s) = show_wrong_notes s \<and>
   number_of_mistakes (gate_round rd s) = number_of_mistakes s"
  by (simp add: gate_round_def Let_def apply_requests_frame2 handle_wrong_notes_frame2 drain_frame)

lemma gate_round_count:
  assumes "wrong_notes s = []" and "show_wrong_notes s = 1"
  shows "mistakes_count (gate_round rd s) =
     (if mistakes_count s + int (length (filter (forfeits s) (queued rd))) > number_of_mistakes s \<and>
         number_of_mistakes s > 0
      then 0 else mistakes_count s + int (length (filter (forfeits s) (queued rd))))"
proof -
  let ?s1 = "drain (queued rd) s"
  have wn: "wrong_notes ?s1 = filter (is_wrong s) (queued rd)"
    using assms(1) by (simp add: drain_wrong_notes)
  have sh: "show_wrong_notes ?s1 = 1" using assms(2) by (simp add: drain_frame)
  have "mistakes_count (gate_round rd s) = mistakes_count (handle_wrong_notes (wrong_notes ?s1) ?s1)"
    by (simp add: gate_round_def Let_def apply_requests_frame2)
  also have "\<dots> =
     (if mistakes_count ?s1 + int (length (filter qualifying (wrong_notes ?s1))) > number_of_mistakes ?s1 \<and>
         number_of_mistakes ?s1 > 0
      then 0 else mistakes_count ?s1 + int (length (filter qualifying (wrong_notes ?s1))))"
    by (rule handle_wrong_notes_count[OF sh])
  finally show ?thesis
    by (simp only: wn qualifying_wrong drain_frame)
qed

lemma after_rounds_count:
  "wrong_notes s = [] \<Longrightarrow> show_wrong_notes s = 1 \<Longrightarrow>
   number_of_mistakes s = 0 \<or>
     mistakes_count s + int (length (filter (forfeits s) (concat (map queued rds))))
       \<le> number_of_mistakes s \<Longrightarrow>
   mistakes_count (after_rounds rds s) =
     mistakes_count s + int (length (filter (forfeits s) (concat (map queued rds))))"
proof (induction rds arbitrary: s)
  case Nil
  show ?case by (simp add: after_rounds_Nil)
next
  case (Cons rd rds)
  let ?s1 = "gate_round rd s"
  let ?k = "int (length (filter (forfeits s) (queued rd)))"
  let ?r = "int (length (filter (forfeits s) (concat (map queued rds))))"
  have fc: "\<And>x. forfeits ?s1 x = forfeits s x"
    by (rule forfeits_cong) (simp add: gate_round_frame)
  have split: "int (length (filter (forfeits s) (concat (map queued (rd # rds))))) = ?k + ?r"
    by simp
  have noreset: "\<not> (mistakes_count s + ?k > number_of_mistakes s \<and> number_of_mistakes s > 0)"
    using Cons.prems(3) unfolding split by linarith
  have c1: "mistakes_count ?s1 = mistakes_count s + ?k"
    using gate_round_count[OF Cons.prems(1) Cons.prems(2), of rd] noreset by simp
  have w1: "wrong_notes ?s1 = []" by (rule gate_round_wrong_notes)
  have s1: "show_wrong_notes ?s1 = 1" using Cons.prems(2) by (simp add: gate_round_settings)
  have n1: "number_of_mistakes ?s1 = number_of_mistakes s" by (simp add: gate_round_settings)
  have b1: "number_of_mistakes ?s1 = 0 \<or>
     mistakes_count ?s1 + int (length (filter (forfeits ?s1) (concat (map queued rds))))
       \<le> number_of_mistakes ?s1"
    using Cons.prems(3) unfolding split fc c1 n1 by linarith
  have "mistakes_count (after_rounds rds ?s1) =
     mistakes_count ?s1 + int (length (filter (forfeits ?s1) (concat (map queued rds))))"
    by (rule Cons.IH[OF w1 s1 b1])
  then show ?case unfolding after_rounds_Cons split fc c1 by simp
qed

section \<open>Wrong-note isolation\<close>

lemma drain_pressed_cong:
  "notes_to_press s = notes_to_press s' \<Longrightarrow> notes_pressed s = notes_pressed s' \<Longrightarrow>
   notes_pressed (drain q s) = notes_pressed (drain q s')"
proof (induction q arbitrary: s s')
  case Nil
  then show ?case by simp
next
  case (Cons e q)
  let ?w = "\<lambda>s. (if input_velocity e > 0 then s\<lparr>pending_software_notes := []\<rparr> else s)
                   \<lparr>wrong_notes := wrong_notes s @ [e]\<rparr>"
  let ?on = "\<lambda>s. s\<lparr>notes_pressed := notes_pressed s @ [msg_note e]\<rparr>"
  let ?off = "\<lambda>s. s\<lparr>notes_pressed := remove1 (msg_note e) (notes_pressed s)\<rparr>"
  have w: "notes_pressed (drain q (?w s)) = notes_pressed (drain q (?w s'))"
    by (rule Cons.IH) (simp_all add: Cons.prems)
  have on: "notes_pressed (drain q (?on s)) = notes_pressed (drain q (?on s'))"
    by (rule Cons.IH) (simp_all add: Cons.prems)
  have off: "notes_pressed (drain q (?off s)) = notes_pressed (drain q (?off s'))"
    by (rule Cons.IH) (simp_all add: Cons.prems)
  have same: "notes_pressed (drain q s) = notes_pressed (drain q s')"
    by (rule Cons.IH) (simp_all add: Cons.prems)
  show ?case
    using w on off same Cons.prems by (simp del: drain.simps add: drain.simps(2)[of e q])
qed

lemma drain_wrong_skip:
  "(msg_type e = NoteOn \<or> msg_type e = NoteOff) \<Longrightarrow> msg_note e \<notin> set (notes_to_press s) \<Longrightarrow>
   notes_pressed (drain (e # q) s) = notes_pressed (drain q s)"
proof -
  assume t: "msg_type e = NoteOn \<or> msg_type e = NoteOff"
    and n: "msg_note e \<notin> set (notes_to_press s)"
  let ?s = "(if input_velocity e > 0 then s\<lparr>pending_software_notes := []\<rparr> else s)
                   \<lparr>wrong_notes := wrong_notes s @ [e]\<rparr>"
  have "drain (e # q) s = drain q ?s" using t n by auto
  moreover have "notes_pressed (drain q ?s) = notes_pressed (drain q s)"
    by (rule drain_pressed_cong) simp_all
  ultimately show ?thesis by simp
qed

text \<open>
  C5, as the code has it.  An input note-on whose note is not in \<open>notes_to_press\<close> is put
  into the batch of wrong notes, leaves \<open>notes_pressed\<close> and the satisfaction of the gate as
  they are, and has no effect on what the rest of the queue does to \<open>notes_pressed\<close>.  The
  handler counts it only when the display of wrong notes is on and its velocity is positive:
  then it adds exactly one to the count that the handler compares with the threshold (the
  count is set back to 0 when it exceeds a non-zero threshold).  With the display off the
  handler changes nothing, and a note-on of velocity 0 is not counted.  In the gate-wait
  loop every pass hands its batch to the handler once and leaves the batch empty, so a pass
  that finds the wrong note-on alone in the queue adds one, and over any number of passes
  the count grows by the number of wrong note-ons of positive velocity that were queued, as
  long as the threshold is not exceeded.
\<close>

theorem wrong_note_isolation:
  assumes "msg_type e = NoteOn" and "msg_note e \<notin> set (notes_to_press s)"
  shows
   "wrong_notes (drain [e] s) = wrong_notes s @ [e] \<and>
    notes_pressed (drain [e] s) = notes_pressed s \<and>
    gate_satisfied (drain [e] s) = gate_satisfied s \<and>
    notes_pressed (drain (e # q) s) = notes_pressed (drain q s) \<and>
    (show_wrong_notes s = 1 \<and> msg_velocity e > 0 \<longrightarrow>
       mistakes_count (wrong_notes_loop (wn1 @ [e] @ wn2) s) =
         mistakes_count (wrong_notes_loop (wn1 @ wn2) s) + 1 \<and>
       mistakes_count (handle_wrong_notes [e] s) =
         (if mistakes_count s + 1 > number_of_mistakes s \<and> number_of_mistakes s > 0
          then 0 else mistakes_count s + 1)) \<and>
    (msg_velocity e \<le> 0 \<longrightarrow>
       mistakes_count (wrong_notes_loop (wn1 @ [e] @ wn2) s) =
         mistakes_count (wrong_notes_loop (wn1 @ wn2) s)) \<and>
    (show_wrong_notes s \<noteq> 1 \<longrightarrow> handle_wrong_notes wn s = s) \<and>
    wrong_notes (gate_round rd s) = [] \<and>
    (wrong_notes s = [] \<and> show_wrong_notes s = 1 \<longrightarrow>
       mistakes_count (gate_round rd s) =
         (if mistakes_count s + int (length (filter (forfeits s) (queued rd)))
               > number_of_mistakes s \<and> number_of_mistakes s > 0
          then 0 else mistakes_count s + int (length (filter (forfeits s) (queued rd))))) \<and>
    (wrong_notes s = [] \<and> show_wrong_notes s = 1 \<and> msg_velocity e > 0 \<and> queued rd = [e] \<longrightarrow>
       mistakes_count (gate_round rd s) =
         (if mistakes_count s + 1 > number_of_mistakes s \<and> number_of_mistakes s > 0
          then 0 else mistakes_count s + 1)) \<and>
    (wrong_notes s = [] \<and> show_wrong_notes s = 1 \<and>
     (number_of_mistakes s = 0 \<or>
      mistakes_count s + int (length (filter (forfeits s) (concat (map queued rds))))
        \<le> number_of_mistakes s) \<longrightarrow>
       mistakes_count (after_rounds rds s) =
         mistakes_count s + int (length (filter (forfeits s) (concat (map queued rds)))))"
proof -
  have v: "input_velocity e = msg_velocity e" using assms(1) by (simp add: input_velocity_def)
  have c1: "wrong_notes (drain [e] s) = wrong_notes s @ [e]"
    and c2: "notes_pressed (drain [e] s) = notes_pressed s"
    and c3: "gate_satisfied (drain [e] s) = gate_satisfied s"
    using assms by (simp_all add: gate_satisfied_def)
  have c4: "notes_pressed (drain (e # q) s) = notes_pressed (drain q s)"
    by (rule drain_wrong_skip) (simp_all add: assms)
  have c5: "show_wrong_notes s = 1 \<and> msg_velocity e > 0 \<longrightarrow>
       mistakes_count (wrong_notes_loop (wn1 @ [e] @ wn2) s) =
         mistakes_count (wrong_notes_loop (wn1 @ wn2) s) + 1 \<and>
       mistakes_count (handle_wrong_notes [e] s) =
         (if mistakes_count s + 1 > number_of_mistakes s \<and> number_of_mistakes s > 0
          then 0 else mistakes_count s + 1)"
    using handle_wrong_notes_count[of s "[e]"]
    by (simp add: wrong_notes_loop_count qualifying_def v)
  have c6: "msg_velocity e \<le> 0 \<longrightarrow>
       mistakes_count (wrong_notes_loop (wn1 @ [e] @ wn2) s) =
         mistakes_count (wrong_notes_loop (wn1 @ wn2) s)"
    by (simp add: wrong_notes_loop_count qualifying_def v)
  have c7: "show_wrong_notes s \<noteq> 1 \<longrightarrow> handle_wrong_notes wn s = s"
    by (simp add: handle_wrong_notes_def)
  have c8: "wrong_notes (gate_round rd s) = []"
    by (rule gate_round_wrong_notes)
  have c9: "wrong_notes s = [] \<and> show_wrong_notes s = 1 \<longrightarrow>
       mistakes_count (gate_round rd s) =
         (if mistakes_count s + int (length (filter (forfeits s) (queued rd)))
               > number_of_mistakes s \<and> number_of_mistakes s > 0
          then 0 else mistakes_count s + int (length (filter (forfeits s) (queued rd))))"
    using gate_round_count[of s rd] by blast
  have c10: "wrong_notes s = [] \<and> show_wrong_notes s = 1 \<and> msg_velocity e > 0 \<and> queued rd = [e] \<longrightarrow>
       mistakes_count (gate_round rd s) =
         (if mistakes_count s + 1 > number_of_mistakes s \<and> number_of_mistakes s > 0
          then 0 else mistakes_count s + 1)"
  proof
    assume h: "wrong_notes s = [] \<and> show_wrong_notes s = 1 \<and> msg_velocity e > 0 \<and> queued rd = [e]"
    then have f: "forfeits s e" using assms by (simp add: forfeits_def)
    from h have "mistakes_count (gate_round rd s) =
         (if mistakes_count s + int (length (filter (forfeits s) (queued rd)))
               > number_of_mistakes s \<and> number_of_mistakes s > 0
          then 0 else mistakes_count s + int (length (filter (forfeits s) (queued rd))))"
      using gate_round_count[of s rd] by blast
    then show "mistakes_count (gate_round rd s) =
         (if mistakes_count s + 1 > number_of_mistakes s \<and> number_of_mistakes s > 0
          then 0 else mistakes_count s + 1)"
      using h f by simp
  qed
  have c11: "wrong_notes s = [] \<and> show_wrong_notes s = 1 \<and>
     (number_of_mistakes s = 0 \<or>
      mistakes_count s + int (length (filter (forfeits s) (concat (map queued rds))))
        \<le> number_of_mistakes s) \<longrightarrow>
       mistakes_count (after_rounds rds s) =
         mistakes_count s + int (length (filter (forfeits s) (concat (map queued rds))))"
    using after_rounds_count[of s rds] by blast
  from c1 c2 c3 c4 c5 c6 c7 c8 c9 c10 c11 show ?thesis by (intro conjI)
qed

theorem wrong_note_isolation_witness:
  "wrong_notes (drain [note_on 0 67 64 0] two_note_gate) = [note_on 0 67 64 0] \<and>
   notes_pressed (drain [note_on 0 67 64 0] two_note_gate) = [] \<and>
   mistakes_count (handle_wrong_notes [note_on 0 67 64 0] two_note_gate) = 1 \<and>
   mistakes_count (gate_round (deliver [note_on 0 67 64 0]) two_note_gate) = 1 \<and>
   mistakes_count (after_rounds [deliver [note_on 0 67 64 0], deliver [], deliver []]
      two_note_gate) = 1"
proof -
  let ?e = "note_on 0 67 64 0"
  let ?rds = "[deliver [?e], deliver [], deliver []]"
  have t: "msg_type ?e = NoteOn" by (simp add: note_on_def)
  have n: "msg_note ?e \<notin> set (notes_to_press two_note_gate)"
    by (simp add: note_on_def two_note_gate_fields)
  have v: "msg_velocity ?e > 0" by (simp add: note_on_def)
  have w: "wrong_notes two_note_gate = []"
    by (simp add: two_note_gate_def example_engine_def)
  have f: "forfeits two_note_gate ?e" using t n v by (simp add: forfeits_def)
  have q: "queued (deliver [?e]) = [?e]" by (simp add: deliver_def)
  have tot: "filter (forfeits two_note_gate) (concat (map queued ?rds)) = [?e]"
    using f by (simp add: deliver_def)
  note T = wrong_note_isolation[OF t n, where q="[]" and ?wn1.0="[]" and ?wn2.0="[]"
      and wn="[]" and rd="deliver [?e]" and rds="?rds"]
  have a: "wrong_notes (drain [?e] two_note_gate) = [?e]"
    using T[THEN conjunct1] w by simp
  have b: "notes_pressed (drain [?e] two_note_gate) = []"
    using T[THEN conjunct2, THEN conjunct1] by (simp add: two_note_gate_fields)
  have c: "mistakes_count (handle_wrong_notes [?e] two_note_gate) = 1"
    using T[THEN conjunct2, THEN conjunct2, THEN conjunct2, THEN conjunct2, THEN conjunct1] v
    by (simp add: two_note_gate_fields)
  have d: "mistakes_count (gate_round (deliver [?e]) two_note_gate) = 1"
    using T[THEN conjunct2, THEN conjunct2, THEN conjunct2, THEN conjunct2, THEN conjunct2,
            THEN conjunct2, THEN conjunct2, THEN conjunct2, THEN conjunct2, THEN conjunct1]
      v w q
    by (simp add: two_note_gate_fields)
  have e: "mistakes_count (after_rounds ?rds two_note_gate) = 1"
    using T[THEN conjunct2, THEN conjunct2, THEN conjunct2, THEN conjunct2, THEN conjunct2,
            THEN conjunct2, THEN conjunct2, THEN conjunct2, THEN conjunct2, THEN conjunct2]
      w
    unfolding tot by (simp add: two_note_gate_fields)
  from a b c d e show ?thesis by (intro conjI)
qed

text \<open>
  The claim as stated fails: with the display of wrong notes off, the note 67 struck while
  60 is expected is put into the batch of wrong notes, and the count of mistakes stays as it
  was.
\<close>

theorem wrong_note_not_counted:
  "67 \<notin> set (notes_to_press unshown_gate) \<and>
   wrong_notes (drain [note_on 0 67 64 0] unshown_gate) = [note_on 0 67 64 0] \<and>
   mistakes_count (gate_round (deliver [note_on 0 67 64 0]) unshown_gate)
     = mistakes_count unshown_gate \<and>
   mistakes_count (gate_round (deliver [note_on 0 67 64 0]) unshown_gate)
     \<noteq> mistakes_count unshown_gate + 1"
  by code_simp

section \<open>The mistake threshold\<close>

lemma process_msg_break:
  "process_msg env m s = Break s' \<Longrightarrow> is_started_midi s' \<Longrightarrow> \<not> awaiting_restart_loop s'"
  by (auto simp: process_msg_def Let_def split: if_splits sum.splits run.splits)

lemma for_loop_break:
  "for_loop env i ms s = Break s' \<Longrightarrow> is_started_midi s' \<Longrightarrow> \<not> awaiting_restart_loop s'"
proof (induction ms arbitrary: i s)
  case Nil
  then show ?case by simp
next
  case (Cons m ms)
  show ?case
  proof (cases "process_msg (env i) m s")
    case (Next s1)
    then have "for_loop env (Suc i) ms s1 = Break s'" using Cons.prems(1) by simp
    from Cons.IH[OF this Cons.prems(2)] show ?thesis .
  next
    case (Break s1)
    then have "s1 = s'" using Cons.prems(1) by simp
    with Break process_msg_break[of "env i" m s s'] Cons.prems(2) show ?thesis by simp
  next
    case (Raise e s1)
    then show ?thesis using Cons.prems(1) by simp
  next
    case (Blocked s1)
    then show ?thesis using Cons.prems(1) by simp
  qed
qed

lemma learn_midi_iteration_keep:
  "learn_midi_iteration env s = Done (b, s') \<Longrightarrow> is_started_midi s' \<Longrightarrow>
   b = (is_loop_active s' \<noteq> 0)"
  by (auto simp: learn_midi_iteration_def Let_def split: step.splits)

lemma apply_requests_awaiting:
  "awaiting_restart_loop (apply_requests a b s) = (awaiting_restart_loop s \<or> b)"
  by (simp add: apply_requests_def Let_def restart_loop_def)

lemma gate_round_restart:
  assumes "wrong_notes s = []" and "show_wrong_notes s = 1" and "number_of_mistakes s > 0"
    and "mistakes_count s + int (length (filter (forfeits s) (queued rd))) > number_of_mistakes s"
  shows "awaiting_restart_loop (gate_round rd s) \<and> mistakes_count (gate_round rd s) = 0"
proof -
  let ?s1 = "drain (queued rd) s"
  have wn: "wrong_notes ?s1 = filter (is_wrong s) (queued rd)"
    using assms(1) by (simp add: drain_wrong_notes)
  have sh: "show_wrong_notes ?s1 = 1" using assms(2) by (simp add: drain_frame)
  have "awaiting_restart_loop (handle_wrong_notes (wrong_notes ?s1) ?s1) =
     (if mistakes_count ?s1 + int (length (filter qualifying (wrong_notes ?s1))) > number_of_mistakes ?s1 \<and>
         number_of_mistakes ?s1 > 0
      then True else awaiting_restart_loop ?s1)"
    by (rule handle_wrong_notes_restart[OF sh])
  then have "awaiting_restart_loop (handle_wrong_notes (wrong_notes ?s1) ?s1)"
    using assms(3,4) by (simp only: wn qualifying_wrong drain_frame) simp
  then have a: "awaiting_restart_loop (gate_round rd s)"
    by (simp add: gate_round_def Let_def apply_requests_awaiting)
  have b: "mistakes_count (gate_round rd s) = 0"
    using gate_round_count[OF assms(1,2), of rd] assms(3,4) by simp
  from a b show ?thesis by simp
qed

lemma gate_wait_exit: "gate_exit s \<Longrightarrow> gate_wait rds s = Done s"
  by (cases rds) (auto simp: gate_exit_def)

lemma gate_wait_restart:
  "\<not> gate_exit s \<Longrightarrow> awaiting_restart_loop (gate_round rd s) \<Longrightarrow>
   gate_wait (rd # rds) s = Done (gate_round rd s)"
proof -
  assume n: "\<not> gate_exit s" and a: "awaiting_restart_loop (gate_round rd s)"
  have "gate_wait (rd # rds) s = gate_wait rds (gate_round rd s)"
    using n by (auto simp: gate_exit_def)
  moreover have "gate_exit (gate_round rd s)" using a by (simp add: gate_exit_def)
  ultimately show ?thesis by (simp add: gate_wait_exit)
qed

lemma tail_frame:
  "awaiting_restart_loop (gate_leave s) = awaiting_restart_loop s"
  "mistakes_count (gate_leave s) = mistakes_count s"
  "is_started_midi (gate_leave s) = is_started_midi s"
  "is_loop_active (gate_leave s) = is_loop_active s"
  "awaiting_restart_loop (save_note_to_press m s) = awaiting_restart_loop s"
  "mistakes_count (save_note_to_press m s) = mistakes_count s"
  "is_started_midi (save_note_to_press m s) = is_started_midi s"
  "is_loop_active (save_note_to_press m s) = is_loop_active s"
  "awaiting_restart_loop (handle_software_note m s) = awaiting_restart_loop s"
  "mistakes_count (handle_software_note m s) = mistakes_count s"
  "is_started_midi (handle_software_note m s) = is_started_midi s"
  "is_loop_active (handle_software_note m s) = is_loop_active s"
  "awaiting_restart_loop (escape_valve env s) = awaiting_restart_loop s"
  "mistakes_count (escape_valve env s) = mistakes_count s"
  "is_started_midi (escape_valve env s) = is_started_midi s"
  "is_loop_active (escape_valve env s) = is_loop_active s"
  by (simp_all add: gate_leave_def flush_pending_def save_note_to_press_def
      handle_software_note_def escape_valve_def)

lemma process_msg_restart_in_gate:
  assumes "no_request_before env" and "is_started_midi s" and "\<not> is_meta m"
    and "get_tDelay s m = Inr t" and "is_gate t m (record_position s)"
    and "gate_wait (rounds env) (gate_entry env t (record_position s)) = Done s2"
    and "awaiting_restart_loop s2"
  shows "\<exists>s'. process_msg env m s = Break s' \<and> \<not> awaiting_restart_loop s' \<and>
              mistakes_count s' = mistakes_count s2 \<and>
              is_started_midi s' = is_started_midi s2 \<and>
              is_loop_active s' = is_loop_active s2"
proof -
  let ?s3 = "handle_software_note m (save_note_to_press m (gate_leave s2))"
  let ?s5 = "escape_valve env (?s3\<lparr>absolute_idx := absolute_idx ?s3 + 1\<rparr>)"
  have r: "apply_requests (stop_before env) (restart_before env) s = s"
    using assms(1) by (simp add: no_request_before_def apply_requests_def)
  have g: "gate_phase env t (record_position s) = Done (gate_leave s2)"
    using assms(6) by (simp add: gate_phase_def)
  have a5: "awaiting_restart_loop ?s5" using assms(7) by (simp add: tail_frame)
  have "process_msg env m s = Break (?s5\<lparr>awaiting_restart_loop := False\<rparr>)"
    unfolding process_msg_def r using assms(2,3,4,5) g a5 by (simp add: Let_def)
  moreover have "\<not> awaiting_restart_loop (?s5\<lparr>awaiting_restart_loop := False\<rparr>)" by simp
  moreover have "mistakes_count (?s5\<lparr>awaiting_restart_loop := False\<rparr>) = mistakes_count s2"
    by (simp add: tail_frame)
  moreover have "is_started_midi (?s5\<lparr>awaiting_restart_loop := False\<rparr>) = is_started_midi s2"
    by (simp add: tail_frame)
  moreover have "is_loop_active (?s5\<lparr>awaiting_restart_loop := False\<rparr>) = is_loop_active s2"
    by (simp add: tail_frame)
  ultimately show ?thesis by blast
qed

lemma loop_entry_slice:
  "py_slice (song_tracks (loop_entry s)) (start_idx (loop_entry s)) (end_idx (loop_entry s))
   = py_slice (song_tracks s) (start_idx s) (end_idx s)"
  by (simp add: loop_entry_def start_idx_def end_idx_def)

lemma learn_midi_iteration_break:
  "for_loop env 0 (py_slice (song_tracks s) (start_idx s) (end_idx s)) (loop_entry s) = Break s' \<Longrightarrow>
   learn_midi_iteration env s = Done (is_loop_active s' \<noteq> 0 \<and> is_started_midi s', s')"
  by (simp add: learn_midi_iteration_def Let_def loop_entry_slice)

text \<open>
  C3, as the code has it.  With the display of wrong notes on and a threshold above zero,
  the handler adds the qualifying wrong note-ons of its batch to \<open>mistakes_count\<close>; when
  the sum exceeds the threshold it sets the count to 0 and sets \<open>awaiting_restart_loop\<close>,
  otherwise it keeps the sum and leaves the flag as it is.  It never touches
  \<open>is_started_midi\<close>.  In the gate-wait loop the pass whose wrong note-ons bring the count
  above the threshold ends with the count at 0 and the flag set, and the wait is left at the
  next test of its condition without another drain.  The pass of the \<open>for\<close> body whose
  gate wait ended with the flag set clears the flag and breaks, with the count and
  \<open>is_started_midi\<close> as the wait left them; the \<open>for\<close> loop ends there, so one request
  is one restart.  The outer loop then goes round again exactly when \<open>is_loop_active\<close> is
  not zero and the run is still started; otherwise that pass is the last one.
\<close>

theorem mistake_threshold:
  assumes "show_wrong_notes s = 1" and "number_of_mistakes s > 0"
  shows
   "(mistakes_count s + int (length (filter qualifying wn)) > number_of_mistakes s \<longrightarrow>
       mistakes_count (handle_wrong_notes wn s) = 0 \<and>
       awaiting_restart_loop (handle_wrong_notes wn s)) \<and>
    (mistakes_count s + int (length (filter qualifying wn)) \<le> number_of_mistakes s \<longrightarrow>
       mistakes_count (handle_wrong_notes wn s) =
         mistakes_count s + int (length (filter qualifying wn)) \<and>
       awaiting_restart_loop (handle_wrong_notes wn s) = awaiting_restart_loop s) \<and>
    is_started_midi (handle_wrong_notes wn s) = is_started_midi s \<and>
    (\<forall>env i ms s0 s'. for_loop env i ms s0 = Break s' \<and> is_started_midi s'
        \<longrightarrow> \<not> awaiting_restart_loop s') \<and>
    (\<forall>env s0 b s'. learn_midi_iteration env s0 = Done (b, s') \<and> is_started_midi s'
        \<longrightarrow> b = (is_loop_active s' \<noteq> 0)) \<and>
    (wrong_notes s = [] \<and>
     mistakes_count s + int (length (filter (forfeits s) (queued rd))) > number_of_mistakes s
        \<longrightarrow> awaiting_restart_loop (gate_round rd s) \<and> mistakes_count (gate_round rd s) = 0 \<and>
            is_started_midi (gate_round rd s) = (is_started_midi s \<and> \<not> stop_request rd)) \<and>
    (\<forall>s0 rd0 rds. \<not> gate_exit s0 \<and> awaiting_restart_loop (gate_round rd0 s0)
        \<longrightarrow> gate_wait (rd0 # rds) s0 = Done (gate_round rd0 s0)) \<and>
    (\<forall>menv m s0 t s2.
        no_request_before menv \<and> is_started_midi s0 \<and> \<not> is_meta m \<and>
        get_tDelay s0 m = Inr t \<and> is_gate t m (record_position s0) \<and>
        gate_wait (rounds menv) (gate_entry menv t (record_position s0)) = Done s2 \<and>
        awaiting_restart_loop s2
        \<longrightarrow> (\<exists>s'. process_msg menv m s0 = Break s' \<and> \<not> awaiting_restart_loop s' \<and>
                   mistakes_count s' = mistakes_count s2 \<and>
                   is_started_midi s' = is_started_midi s2 \<and>
                   is_loop_active s' = is_loop_active s2)) \<and>
    (\<forall>env i m ms s0 s'. process_msg (env i) m s0 = Break s'
        \<longrightarrow> for_loop env i (m # ms) s0 = Break s') \<and>
    (\<forall>env s0 s'.
        for_loop env 0 (py_slice (song_tracks s0) (start_idx s0) (end_idx s0)) (loop_entry s0)
          = Break s'
        \<longrightarrow> learn_midi_iteration env s0
              = Done (is_loop_active s' \<noteq> 0 \<and> is_started_midi s', s')) \<and>
    (\<forall>envs k n s0 s'.
        (learn_midi_iteration (envs k) s0 = Done (False, s')
           \<longrightarrow> keep_looping (Suc n) envs k s0 = Some (Done s')) \<and>
        (learn_midi_iteration (envs k) s0 = Done (True, s')
           \<longrightarrow> keep_looping (Suc n) envs k s0 = keep_looping n envs (Suc k) s'))"
proof -
  have c1: "mistakes_count s + int (length (filter qualifying wn)) > number_of_mistakes s \<longrightarrow>
       mistakes_count (handle_wrong_notes wn s) = 0 \<and>
       awaiting_restart_loop (handle_wrong_notes wn s)"
    using assms by (simp add: handle_wrong_notes_count handle_wrong_notes_restart)
  have c2: "mistakes_count s + int (length (filter qualifying wn)) \<le> number_of_mistakes s \<longrightarrow>
       mistakes_count (handle_wrong_notes wn s) =
         mistakes_count s + int (length (filter qualifying wn)) \<and>
       awaiting_restart_loop (handle_wrong_notes wn s) = awaiting_restart_loop s"
    using assms by (simp add: handle_wrong_notes_count handle_wrong_notes_restart)
  have c3: "is_started_midi (handle_wrong_notes wn s) = is_started_midi s"
    by (simp add: handle_wrong_notes_frame)
  have c4: "\<forall>env i ms s0 s'. for_loop env i ms s0 = Break s' \<and> is_started_midi s'
        \<longrightarrow> \<not> awaiting_restart_loop s'"
    using for_loop_break by blast
  have c5: "\<forall>env s0 b s'. learn_midi_iteration env s0 = Done (b, s') \<and> is_started_midi s'
        \<longrightarrow> b = (is_loop_active s' \<noteq> 0)"
    using learn_midi_iteration_keep by blast
  have st: "is_started_midi (gate_round rd s) = (is_started_midi s \<and> \<not> stop_request rd)"
    by (simp add: gate_round_def Let_def apply_requests_def restart_loop_def
        handle_wrong_notes_frame drain_frame)
  have c6: "wrong_notes s = [] \<and>
     mistakes_count s + int (length (filter (forfeits s) (queued rd))) > number_of_mistakes s
        \<longrightarrow> awaiting_restart_loop (gate_round rd s) \<and> mistakes_count (gate_round rd s) = 0 \<and>
            is_started_midi (gate_round rd s) = (is_started_midi s \<and> \<not> stop_request rd)"
    using gate_round_restart[of s rd] assms st by blast
  have c7: "\<forall>s0 rd0 rds. \<not> gate_exit s0 \<and> awaiting_restart_loop (gate_round rd0 s0)
        \<longrightarrow> gate_wait (rd0 # rds) s0 = Done (gate_round rd0 s0)"
    using gate_wait_restart by blast
  have c8: "\<forall>menv m s0 t s2.
        no_request_before menv \<and> is_started_midi s0 \<and> \<not> is_meta m \<and>
        get_tDelay s0 m = Inr t \<and> is_gate t m (record_position s0) \<and>
        gate_wait (rounds menv) (gate_entry menv t (record_position s0)) = Done s2 \<and>
        awaiting_restart_loop s2
        \<longrightarrow> (\<exists>s'. process_msg menv m s0 = Break s' \<and> \<not> awaiting_restart_loop s' \<and>
                   mistakes_count s' = mistakes_count s2 \<and>
                   is_started_midi s' = is_started_midi s2 \<and>
                   is_loop_active s' = is_loop_active s2)"
  proof (intro allI impI)
    fix menv m s0 t s2
    assume h: "no_request_before menv \<and> is_started_midi s0 \<and> \<not> is_meta m \<and>
        get_tDelay s0 m = Inr t \<and> is_gate t m (record_position s0) \<and>
        gate_wait (rounds menv) (gate_entry menv t (record_position s0)) = Done s2 \<and>
        awaiting_restart_loop s2"
    show "\<exists>s'. process_msg menv m s0 = Break s' \<and> \<not> awaiting_restart_loop s' \<and>
                   mistakes_count s' = mistakes_count s2 \<and>
                   is_started_midi s' = is_started_midi s2 \<and>
                   is_loop_active s' = is_loop_active s2"
    proof (rule process_msg_restart_in_gate)
      show "no_request_before menv" using h by blast
      show "is_started_midi s0" using h by blast
      show "\<not> is_meta m" using h by blast
      show "get_tDelay s0 m = Inr t" using h by blast
      show "is_gate t m (record_position s0)" using h by blast
      show "gate_wait (rounds menv) (gate_entry menv t (record_position s0)) = Done s2"
        using h by blast
      show "awaiting_restart_loop s2" using h by blast
    qed
  qed
  have c9: "\<forall>env i m ms s0 s'. process_msg (env i) m s0 = Break s'
        \<longrightarrow> for_loop env i (m # ms) s0 = Break s'"
    by simp
  have c10: "\<forall>env s0 s'.
        for_loop env 0 (py_slice (song_tracks s0) (start_idx s0) (end_idx s0)) (loop_entry s0)
          = Break s'
        \<longrightarrow> learn_midi_iteration env s0
              = Done (is_loop_active s' \<noteq> 0 \<and> is_started_midi s', s')"
    using learn_midi_iteration_break by blast
  have c11: "\<forall>envs k n s0 s'.
        (learn_midi_iteration (envs k) s0 = Done (False, s')
           \<longrightarrow> keep_looping (Suc n) envs k s0 = Some (Done s')) \<and>
        (learn_midi_iteration (envs k) s0 = Done (True, s')
           \<longrightarrow> keep_looping (Suc n) envs k s0 = keep_looping n envs (Suc k) s')"
    by simp
  from c1 c2 c3 c4 c5 c6 c7 c8 c9 c10 c11 show ?thesis by (intro conjI)
qed

lemma with_mistakes_fields:
  "show_wrong_notes (with_mistakes c) = 1" "number_of_mistakes (with_mistakes c) = 3"
  "mistakes_count (with_mistakes c) = c" "\<not> awaiting_restart_loop (with_mistakes c)"
  "is_started_midi (with_mistakes c)"
  by (simp_all add: with_mistakes_def example_engine_def)

theorem mistake_threshold_witness:
  "mistakes_count (handle_wrong_notes [note_on 0 67 64 0] (with_mistakes 2)) = 3 \<and>
   \<not> awaiting_restart_loop (handle_wrong_notes [note_on 0 67 64 0] (with_mistakes 2)) \<and>
   mistakes_count (handle_wrong_notes [note_on 0 67 64 0] (with_mistakes 3)) = 0 \<and>
   awaiting_restart_loop (handle_wrong_notes [note_on 0 67 64 0] (with_mistakes 3)) \<and>
   is_started_midi (handle_wrong_notes [note_on 0 67 64 0] (with_mistakes 3)) \<and>
   fst (run_state (learn_midi_iteration four_wrong_in_gate example_engine)) \<and>
   keep_looping 2 (\<lambda>k. four_wrong_in_gate) 0 example_engine =
     keep_looping 1 (\<lambda>k. four_wrong_in_gate) 1
       (snd (run_state (learn_midi_iteration four_wrong_in_gate example_engine)))"
proof -
  have q: "qualifying (note_on 0 67 64 0)"
    by (simp add: qualifying_def input_velocity_def note_on_def)
  have h: "show_wrong_notes (with_mistakes c) = 1" "number_of_mistakes (with_mistakes c) > 0" for c
    by (simp_all add: with_mistakes_fields)
  note T2 = mistake_threshold[OF h[of 2], where wn="[note_on 0 67 64 0]" and rd="deliver []"]
  note T3 = mistake_threshold[OF h[of 3], where wn="[note_on 0 67 64 0]" and rd="deliver []"]
  have a: "mistakes_count (handle_wrong_notes [note_on 0 67 64 0] (with_mistakes 2)) = 3 \<and>
      \<not> awaiting_restart_loop (handle_wrong_notes [note_on 0 67 64 0] (with_mistakes 2))"
    using T2[THEN conjunct2, THEN conjunct1] by (simp add: q with_mistakes_fields)
  have b: "mistakes_count (handle_wrong_notes [note_on 0 67 64 0] (with_mistakes 3)) = 0 \<and>
      awaiting_restart_loop (handle_wrong_notes [note_on 0 67 64 0] (with_mistakes 3))"
    using T3[THEN conjunct1] by (simp add: q with_mistakes_fields)
  have c: "is_started_midi (handle_wrong_notes [note_on 0 67 64 0] (with_mistakes 3))"
    using T3[THEN conjunct2, THEN conjunct2, THEN conjunct1] by (simp add: with_mistakes_fields)
  let ?r = "learn_midi_iteration four_wrong_in_gate example_engine"
  have d1: "is_done ?r" by code_simp
  have d2: "is_started_midi (snd (run_state ?r))" by code_simp
  have d3: "is_loop_active (snd (run_state ?r)) \<noteq> 0" by code_simp
  have r: "?r = Done (fst (run_state ?r), snd (run_state ?r))"
    using is_done_Done[OF d1] by simp
  from T3[THEN conjunct2, THEN conjunct2, THEN conjunct2, THEN conjunct2, THEN conjunct1,
          rule_format, OF conjI[OF r d2]] d3
  have d: "fst (run_state ?r)" by simp
  then have r': "learn_midi_iteration ((\<lambda>k. four_wrong_in_gate) (0::nat)) example_engine
                 = Done (True, snd (run_state ?r))"
    using r by simp
  have e: "keep_looping (Suc (Suc 0)) (\<lambda>k. four_wrong_in_gate) 0 example_engine =
     keep_looping (Suc 0) (\<lambda>k. four_wrong_in_gate) (Suc 0) (snd (run_state ?r))"
    by (rule T3[THEN conjunct2, THEN conjunct2, THEN conjunct2, THEN conjunct2, THEN conjunct2,
          THEN conjunct2, THEN conjunct2, THEN conjunct2, THEN conjunct2, THEN conjunct2,
          rule_format, THEN conjunct2, rule_format, OF r'])
  have two: "(2::nat) = Suc (Suc 0)" "(1::nat) = Suc 0" by simp_all
  from a b c d e show ?thesis unfolding two by (intro conjI) simp_all
qed

text \<open>
  The claim as stated fails: with looping switched off, the fourth wrong key in the gate
  resets the count and breaks the \<open>for\<close> loop, and that pass is the last one: the outer
  loop ends although the run was not cancelled.
\<close>

theorem mistake_restart_ends_run:
  "is_done (learn_midi_iteration four_wrong_in_gate unlooped_engine) \<and>
   \<not> fst (run_state (learn_midi_iteration four_wrong_in_gate unlooped_engine)) \<and>
   is_started_midi (snd (run_state (learn_midi_iteration four_wrong_in_gate unlooped_engine))) \<and>
   mistakes_count (snd (run_state (learn_midi_iteration four_wrong_in_gate unlooped_engine))) = 0 \<and>
   keep_looping 1 (\<lambda>k. four_wrong_in_gate) 0 unlooped_engine \<noteq> None"
  by code_simp

section \<open>Pending software notes\<close>

lemma drain_pending:
  "pending_software_notes (drain q s) =
     (if \<exists>e\<in>set q. forfeits s e then [] else pending_software_notes s)"
proof (induction q arbitrary: s)
  case Nil
  show ?case by simp
next
  case (Cons e q)
  show ?case
  proof (cases "msg_type e \<noteq> NoteOn \<and> msg_type e \<noteq> NoteOff")
    case True
    then have eq: "drain (e # q) s = drain q s" by simp
    have nf: "\<not> forfeits s e" using True by (simp add: forfeits_def)
    show ?thesis unfolding eq Cons.IH[of s] using nf by simp
  next
    case note_msg: False
    show ?thesis
    proof (cases "msg_note e \<in> set (notes_to_press s)")
      case True
      have nf: "\<not> forfeits s e" using True by (simp add: forfeits_def)
      show ?thesis
      proof (cases "input_velocity e > 0")
        case on: True
        show ?thesis
        proof (cases "msg_note e \<in> set (notes_pressed s)")
          case pressed: True
          have eq: "drain (e # q) s = drain q s" using note_msg True on pressed by auto
          show ?thesis unfolding eq Cons.IH[of s] using nf by simp
        next
          case fresh: False
          let ?s = "s\<lparr>notes_pressed := notes_pressed s @ [msg_note e]\<rparr>"
          have eq: "drain (e # q) s = drain q ?s" using note_msg True on fresh by auto
          have fc: "\<And>x. forfeits ?s x = forfeits s x" by (rule forfeits_cong) simp
          show ?thesis unfolding eq Cons.IH[of ?s] fc using nf by simp
        qed
      next
        case off: False
        let ?s = "s\<lparr>notes_pressed := remove1 (msg_note e) (notes_pressed s)\<rparr>"
        have eq: "drain (e # q) s = drain q ?s" using note_msg True off by auto
        have fc: "\<And>x. forfeits ?s x = forfeits s x" by (rule forfeits_cong) simp
        show ?thesis unfolding eq Cons.IH[of ?s] fc using nf by simp
      qed
    next
      case wrong: False
      show ?thesis
      proof (cases "input_velocity e > 0")
        case on: True
        let ?s = "s\<lparr>pending_software_notes := [], wrong_notes := wrong_notes s @ [e]\<rparr>"
        have eq: "drain (e # q) s = drain q ?s" using note_msg wrong on by auto
        have fc: "\<And>x. forfeits ?s x = forfeits s x" by (rule forfeits_cong) simp
        have "msg_type e = NoteOn \<and> msg_velocity e > 0"
          using note_msg on by (auto simp: input_velocity_def split: if_splits)
        then have f: "forfeits s e" using wrong by (simp add: forfeits_def)
        show ?thesis unfolding eq Cons.IH[of ?s] fc using f by simp
      next
        case off: False
        let ?s = "s\<lparr>wrong_notes := wrong_notes s @ [e]\<rparr>"
        have eq: "drain (e # q) s = drain q ?s" using note_msg wrong off by auto
        have fc: "\<And>x. forfeits ?s x = forfeits s x" by (rule forfeits_cong) simp
        have nf: "\<not> forfeits s e"
          using off by (auto simp: forfeits_def input_velocity_def split: if_splits)
        show ?thesis unfolding eq Cons.IH[of ?s] fc using nf by simp
      qed
    qed
  qed
qed

lemma gate_round_pending:
  "pending_software_notes (gate_round rd s) =
     (if \<exists>e\<in>set (queued rd). forfeits s e then [] else pending_software_notes s)"
  by (simp add: gate_round_def Let_def apply_requests_frame handle_wrong_notes_frame
      drain_pending)

lemma gate_wait_playport: "playport (run_state (gate_wait rds s)) = playport s"
proof -
  from gate_wait_first_exit[of rds s] obtain k where
    "run_state (gate_wait rds s) = after_rounds (take k rds) s" by blast
  then show ?thesis by (simp add: after_rounds_frame)
qed

text \<open>
  C4, as the code has it.  A software note met outside Listen mode while \<open>notes_to_press\<close>
  is not empty is appended to \<open>pending_software_notes\<close> and not sent.  Nothing is sent
  during a gate wait.  When the wait is left with the gate satisfied, all pending notes are
  sent in order and the buffer is emptied; when it is left otherwise, nothing is sent and
  the buffer is kept.  A drain that meets a wrong note-on of positive velocity leaves the
  buffer empty, without sending.  Besides the gate, only the flush by time sends pending
  notes: it fires when notes are pending, none is required, and the recorded time of the
  next note has passed.
\<close>

theorem pending_deferral:
  "(is_software_note m s \<and> practice s \<noteq> 2 \<and> notes_to_press s \<noteq> [] \<longrightarrow>
      pending_software_notes (handle_software_note m s) = pending_software_notes s @ [m] \<and>
      playport (handle_software_note m s) = playport s) \<and>
   playport (run_state (gate_wait rds s)) = playport s \<and>
   (gate_satisfied s \<longrightarrow>
      playport (gate_leave s) = playport s @ pending_software_notes s \<and>
      pending_software_notes (gate_leave s) = []) \<and>
   (\<not> gate_satisfied s \<longrightarrow>
      playport (gate_leave s) = playport s \<and>
      pending_software_notes (gate_leave s) = pending_software_notes s) \<and>
   ((\<exists>e\<in>set q. forfeits s e) \<longrightarrow> pending_software_notes (drain q s) = []) \<and>
   playport (drain q s) = playport s \<and>
   playport (escape_valve env s) =
     (if pending_software_notes s \<noteq> [] \<and> notes_to_press s = [] \<and>
         (\<exists>t. next_note_time s = Some t \<and> t \<noteq> 0 \<and> t \<le> valve_clock env)
      then playport s @ pending_software_notes s else playport s)"
proof -
  have c1: "is_software_note m s \<and> practice s \<noteq> 2 \<and> notes_to_press s \<noteq> [] \<longrightarrow>
      pending_software_notes (handle_software_note m s) = pending_software_notes s @ [m] \<and>
      playport (handle_software_note m s) = playport s"
    by (simp add: handle_software_note_def)
  have c2: "playport (run_state (gate_wait rds s)) = playport s"
    by (rule gate_wait_playport)
  have c3: "gate_satisfied s \<longrightarrow>
      playport (gate_leave s) = playport s @ pending_software_notes s \<and>
      pending_software_notes (gate_leave s) = []"
    by (simp add: gate_leave_def flush_pending_def)
  have c4: "\<not> gate_satisfied s \<longrightarrow>
      playport (gate_leave s) = playport s \<and>
      pending_software_notes (gate_leave s) = pending_software_notes s"
    by (simp add: gate_leave_def)
  have c5: "(\<exists>e\<in>set q. forfeits s e) \<longrightarrow> pending_software_notes (drain q s) = []"
    by (simp add: drain_pending)
  have c6: "playport (drain q s) = playport s"
    by (simp add: drain_frame)
  have c7: "playport (escape_valve env s) =
     (if pending_software_notes s \<noteq> [] \<and> notes_to_press s = [] \<and>
         (\<exists>t. next_note_time s = Some t \<and> t \<noteq> 0 \<and> t \<le> valve_clock env)
      then playport s @ pending_software_notes s else playport s)"
    by (cases "next_note_time s") (simp_all add: escape_valve_def flush_pending_def)
  from c1 c2 c3 c4 c5 c6 c7 show ?thesis by (intro conjI)
qed

theorem pending_deferral_witness:
  "pending_software_notes (handle_software_note (note_on 2 48 64 0) unshown_gate)
     = [note_on 2 48 64 0] \<and>
   playport (handle_software_note (note_on 2 48 64 0) unshown_gate) = [] \<and>
   pending_software_notes (drain [note_on 0 67 64 0]
      (handle_software_note (note_on 2 48 64 0) unshown_gate)) = [] \<and>
   playport (drain [note_on 0 67 64 0]
      (handle_software_note (note_on 2 48 64 0) unshown_gate)) = [] \<and>
   playport (gate_leave (drain [note_on 1 60 64 0]
      (handle_software_note (note_on 2 48 64 0) unshown_gate))) = [note_on 2 48 64 0]"
proof -
  let ?m = "note_on 2 48 64 0"
  let ?s = "handle_software_note ?m unshown_gate"
  have h1: "is_software_note ?m unshown_gate \<and> practice unshown_gate \<noteq> 2 \<and>
            notes_to_press unshown_gate \<noteq> []"
    by (simp add: is_software_note_def unshown_gate_def example_engine_def note_on_def)
  have p0: "pending_software_notes unshown_gate = []" "playport unshown_gate = []"
    by (simp_all add: unshown_gate_def example_engine_def)
  from pending_deferral[of ?m unshown_gate "[]" "[]" quiet] h1 p0
  have a: "pending_software_notes ?s = [?m]" "playport ?s = []" by simp_all
  have ntp: "notes_to_press ?s = [60]"
    by (simp add: handle_software_note_def unshown_gate_def example_engine_def)
  have f: "\<exists>e\<in>set [note_on 0 67 64 0]. forfeits ?s e"
    unfolding forfeits_def ntp by (simp add: note_on_def)
  from pending_deferral[of ?m ?s "[]" "[note_on 0 67 64 0]" quiet] f a
  have b: "pending_software_notes (drain [note_on 0 67 64 0] ?s) = []"
    "playport (drain [note_on 0 67 64 0] ?s) = []" by simp_all
  let ?g = "drain [note_on 1 60 64 0] ?s"
  have g: "gate_satisfied ?g" by code_simp
  have nf: "\<not> (\<exists>e\<in>set [note_on 1 60 64 0]. forfeits ?s e)"
    unfolding forfeits_def ntp by (simp add: note_on_def)
  have gp1: "playport ?g = []" using a(2) by (simp only: drain_frame)
  have gp2: "pending_software_notes ?g = [?m]"
    unfolding drain_pending using nf a(1) by simp
  note gp = gp1 gp2
  from pending_deferral[of ?m ?g "[]" "[]" quiet] g gp
  have c: "playport (gate_leave ?g) = [?m]" by simp
  from a b c show ?thesis by (intro conjI)
qed

text \<open>
  The claim as stated fails: the left hand's note 48 is pending behind the gate on 60; a
  restart is requested during the wait, the wait is left with nothing pressed, and the
  flush by time sends the pending note although the gate was never satisfied.
\<close>

theorem pending_sent_without_gate:
  "is_done (learn_midi_iteration restart_in_gate example_engine) \<and>
   playport (snd (run_state (learn_midi_iteration restart_in_gate example_engine)))
     = [note_on 2 48 64 0] \<and>
   notes_pressed (snd (run_state (learn_midi_iteration restart_in_gate example_engine))) = []"
  by code_simp

section \<open>Restart\<close>

lemma start_idx_loop_entry: "start_idx (loop_entry s) = start_idx s"
  by (simp add: loop_entry_def start_idx_def)

text \<open>
  C1, as the code has it.  When a pass of the outer loop ends with \<open>keep_looping\<close> still
  set (after a restart request in particular) and the \<open>for\<close> loop is entered again, both
  cursors equal the slice start \<open>int(start_point * len(song_tracks) / 100)\<close> and
  \<open>notes_to_press\<close> is empty.  \<open>notes_pressed\<close> and the batch of wrong notes are emptied
  on every entry into a gate, before they are read.
\<close>

theorem restart_reentry:
  "(\<forall>s1. reentry_state env s = Some s1 \<longrightarrow>
      current_idx s1 = start_idx s1 \<and>
      absolute_idx s1 = start_idx s1 \<and>
      start_idx s1 = py_int (start_point s1 * of_nat (length (song_tracks s1)) / 100) \<and>
      notes_to_press s1 = []) \<and>
   notes_pressed (gate_entry menv tDelay s) = [] \<and>
   wrong_notes (gate_entry menv tDelay s) = [] \<and>
   gate_phase menv tDelay (s\<lparr>notes_pressed := np, wrong_notes := wn\<rparr>) = gate_phase menv tDelay s"
proof -
  have c1: "\<forall>s1. reentry_state env s = Some s1 \<longrightarrow>
      current_idx s1 = start_idx s1 \<and>
      absolute_idx s1 = start_idx s1 \<and>
      start_idx s1 = py_int (start_point s1 * of_nat (length (song_tracks s1)) / 100) \<and>
      notes_to_press s1 = []"
  proof (intro allI impI)
    fix s1 assume "reentry_state env s = Some s1"
    then obtain s' where s1: "s1 = loop_entry s'"
      by (auto simp: reentry_state_def split: run.splits if_splits)
    show "current_idx s1 = start_idx s1 \<and>
      absolute_idx s1 = start_idx s1 \<and>
      start_idx s1 = py_int (start_point s1 * of_nat (length (song_tracks s1)) / 100) \<and>
      notes_to_press s1 = []"
      unfolding s1 start_idx_loop_entry by (simp add: loop_entry_def start_idx_def)
  qed
  have c2: "notes_pressed (gate_entry menv tDelay s) = []"
    and c3: "wrong_notes (gate_entry menv tDelay s) = []"
    by (simp_all add: gate_entry_def)
  have "gate_entry menv tDelay (s\<lparr>notes_pressed := np, wrong_notes := wn\<rparr>) = gate_entry menv tDelay s"
    by (simp add: gate_entry_def)
  then have c4: "gate_phase menv tDelay (s\<lparr>notes_pressed := np, wrong_notes := wn\<rparr>) = gate_phase menv tDelay s"
    by (simp add: gate_phase_def)
  from c1 c2 c3 c4 show ?thesis by (intro conjI)
qed

theorem restart_reentry_witness:
  "map_option current_idx (reentry_state restart_at_second example_engine) = Some 0 \<and>
   map_option notes_to_press (reentry_state restart_at_second example_engine) = Some []"
proof -
  have e: "reentry_state restart_at_second example_engine \<noteq> None" by code_simp
  then obtain s1 where s1: "reentry_state restart_at_second example_engine = Some s1" by blast
  from restart_reentry[of restart_at_second example_engine quiet 0 "[]" "[]", THEN conjunct1,
        rule_format, OF s1]
  have a: "current_idx s1 = start_idx s1" "notes_to_press s1 = []"
    "start_idx s1 = py_int (start_point s1 * of_nat (length (song_tracks s1)) / 100)"
    by simp_all
  have "map_option start_point (reentry_state restart_at_second example_engine) = Some 0" by code_simp
  then have "start_point s1 = 0" using s1 by simp
  then have "current_idx s1 = 0" using a by (simp add: py_int_def)
  with a s1 show ?thesis by simp
qed

text \<open>
  The claim as stated fails: a restart requested while the left hand's note 48 is queued
  behind the right hand's 60 breaks the \<open>for\<close> loop, and the loop is entered again with
  that note still in \<open>pending_software_notes\<close>.
\<close>

theorem restart_keeps_pending:
  "map_option pending_software_notes (reentry_state restart_at_second example_engine)
     = Some [note_on 2 48 64 0] \<and>
   map_option current_idx (reentry_state restart_at_second example_engine) = Some 0"
  by code_simp

end
